theory Spec2Isabelle
  imports Complex_Main "HOL-Library.AList" "HOL-Library.Char_ord"
    "HOL-Library.List_Lexorder" "HOL-Library.Product_Lexorder"
begin

section \<open>WORLD.AI V0.4: agents, zones, path graph and the decision round\<close>

text \<open>
  The embedding follows \<^verbatim>\<open>VERSIONS/V0.4.py\<close>. Python floats are modelled as
  \<^typ>\<open>real\<close> (exact arithmetic, no rounding), Python ints as \<^typ>\<open>int\<close> or
  \<^typ>\<open>nat\<close> (counters that start at 0 and only grow), strings as byte lists, and
  insertion-ordered dictionaries as association lists updated in place
  (\<^const>\<open>AList.update\<close> replaces the value of an existing key where it stands and
  appends a new key at the end, as a Python dict does). Exceptions are values. Library
  functions whose results depend on rounding or on the Unicode tables (\<^verbatim>\<open>math.hypot\<close>
  in the constructor of the graph, \<^verbatim>\<open>json.loads\<close>, \<^verbatim>\<open>str.strip\<close>,
  \<^verbatim>\<open>str.lower\<close>) and the answer of the decision service are parameters.
\<close>

subsection \<open>Configuration and enumerations\<close>

definition MOVE_SPEED :: real where "MOVE_SPEED = 5"
definition NEED_DECAY :: real where "NEED_DECAY = 6 / 1000"
definition CRITICAL :: real where "CRITICAL = 25 / 10"
definition LOW :: real where "LOW = 4"
definition MAX_HEALTH :: real where "MAX_HEALTH = 100"

datatype ZoneType = HOME | WORK | CAFE | PARK | ROAD

datatype Goal = IDLE | GO_HOME | GO_WORK | GO_CAFE | GO_PARK

datatype exn =
    KeyError string
  | IndexError
  | AttributeError string
  | RuntimeError string
  | TimeoutError
  | ClientError string
  | CancelledError

text \<open>\<^verbatim>\<open>ZONE_FOR_GOAL\<close>: a dictionary without an entry for \<^verbatim>\<open>Goal.IDLE\<close>.\<close>

fun ZONE_FOR_GOAL :: "Goal \<Rightarrow> ZoneType option" where
  "ZONE_FOR_GOAL GO_HOME = Some HOME"
| "ZONE_FOR_GOAL GO_WORK = Some WORK"
| "ZONE_FOR_GOAL GO_CAFE = Some CAFE"
| "ZONE_FOR_GOAL GO_PARK = Some PARK"
| "ZONE_FOR_GOAL IDLE = None"

text \<open>
  The keys of the needs dictionary. \<^verbatim>\<open>__post_init__\<close> creates it with exactly
  these four keys, in this order, and nothing adds or removes a key afterwards, so the
  dictionary is a total function on \<open>Need\<close> and \<open>need_keys\<close> is its iteration order.
\<close>

datatype Need = hunger | energy | social | work

definition need_keys :: "Need list" where
  "need_keys = [hunger, energy, social, work]"

text \<open>\<^verbatim>\<open>ZONE_EFFECTS.get(zone.type, {}).items()\<close>, in the order of the source.\<close>

fun ZONE_EFFECTS :: "ZoneType \<Rightarrow> (Need \<times> real) list" where
  "ZONE_EFFECTS HOME = [(energy, 12 / 100)]"
| "ZONE_EFFECTS WORK = [(work, 15 / 100)]"
| "ZONE_EFFECTS CAFE = [(hunger, 18 / 100), (social, 8 / 100)]"
| "ZONE_EFFECTS PARK = [(energy, 6 / 100), (social, 10 / 100)]"
| "ZONE_EFFECTS ROAD = []"

text \<open>
  \<^verbatim>\<open>NEED_NAMES\<close> maps a need key to its display name. The names are Cyrillic
  (Golod, Energiya, Obshchenie, Rabota); they are written here as their UTF-8 bytes.
\<close>

definition name_hunger :: string where
  "name_hunger =
    [CHR 0xD0, CHR 0x93, CHR 0xD0, CHR 0xBE, CHR 0xD0, CHR 0xBB, CHR 0xD0, CHR 0xBE,
     CHR 0xD0, CHR 0xB4]"
definition name_energy :: string where
  "name_energy =
    [CHR 0xD0, CHR 0xAD, CHR 0xD0, CHR 0xBD, CHR 0xD0, CHR 0xB5, CHR 0xD1, CHR 0x80,
     CHR 0xD0, CHR 0xB3, CHR 0xD0, CHR 0xB8, CHR 0xD1, CHR 0x8F]"
definition name_social :: string where
  "name_social =
    [CHR 0xD0, CHR 0x9E, CHR 0xD0, CHR 0xB1, CHR 0xD1, CHR 0x89, CHR 0xD0, CHR 0xB5,
     CHR 0xD0, CHR 0xBD, CHR 0xD0, CHR 0xB8, CHR 0xD0, CHR 0xB5]"
definition name_work :: string where
  "name_work =
    [CHR 0xD0, CHR 0xA0, CHR 0xD0, CHR 0xB0, CHR 0xD0, CHR 0xB1, CHR 0xD0, CHR 0xBE,
     CHR 0xD1, CHR 0x82, CHR 0xD0, CHR 0xB0]"

fun NEED_NAMES :: "Need \<Rightarrow> string" where
  "NEED_NAMES hunger = name_hunger"
| "NEED_NAMES energy = name_energy"
| "NEED_NAMES social = name_social"
| "NEED_NAMES work = name_work"

text \<open>\<^verbatim>\<open>d.get(k, default)\<close> on a dictionary.\<close>

definition dict_get :: "('k \<times> 'v) list \<Rightarrow> 'k \<Rightarrow> 'v \<Rightarrow> 'v" where
  "dict_get d k dflt = (case map_of d k of None \<Rightarrow> dflt | Some v \<Rightarrow> v)"

subsection \<open>Zones\<close>

text \<open>
  A \<^verbatim>\<open>pygame.Rect\<close> is \<open>(x, y, w, h)\<close>. Its \<^verbatim>\<open>center\<close> is
  \<open>(x + w // 2, y + h // 2)\<close>; \<^verbatim>\<open>collidepoint\<close> holds on the left and top
  edges and not on the right and bottom ones.
\<close>

type_synonym Rect = "int \<times> int \<times> int \<times> int"

fun rect_center :: "Rect \<Rightarrow> int \<times> int" where
  "rect_center (x, y, w, h) = (x + w div 2, y + h div 2)"

fun collidepoint :: "Rect \<Rightarrow> real \<Rightarrow> real \<Rightarrow> bool" where
  "collidepoint (x, y, w, h) px py \<longleftrightarrow>
     real_of_int x \<le> px \<and> px < real_of_int (x + w) \<and>
     real_of_int y \<le> py \<and> py < real_of_int (y + h)"

record Zone =
  name :: string
  type :: ZoneType
  rect :: Rect
  color :: "nat \<times> nat \<times> nat"

definition center :: "Zone \<Rightarrow> int \<times> int" where
  "center z = rect_center (rect z)"

subsection \<open>PathGraph\<close>

record PathGraph =
  pos :: "(string \<times> (int \<times> int)) list"
  adj :: "(string \<times> string list) list"

definition hypot :: "real \<Rightarrow> real \<Rightarrow> real" where
  "hypot dx dy = sqrt (dx * dx + dy * dy)"

text \<open>
  The constructor calls \<^verbatim>\<open>math.hypot\<close> on two integers and sorts by the doubles it
  returns. Which double that is for given arguments is a matter of the library, so the
  function is a parameter \<open>hyp\<close> of the constructor: \<open>hyp dx dy\<close> is the value
  \<^verbatim>\<open>math.hypot(dx, dy)\<close> returns. \<open>exact_hypot\<close> is the distance without rounding.
  \<open>hypot_ok\<close> states what the theorems about concrete zones and about Euclidean
  distance use of it: the signs of the arguments do not matter, and among arguments of
  magnitude up to 1048576 (two to the power 20) a smaller sum of squares gives a smaller
  result (two such sums that differ have square roots more than one part in two to the
  power 43 apart, far more than the rounding error of a double).
\<close>

type_synonym hypot_fn = "int \<Rightarrow> int \<Rightarrow> real"

definition exact_hypot :: hypot_fn where
  "exact_hypot dx dy = hypot (real_of_int dx) (real_of_int dy)"

definition coord_bound :: int where
  "coord_bound = 1048576"

definition hypot_ok :: "hypot_fn \<Rightarrow> bool" where
  "hypot_ok hyp \<longleftrightarrow>
     (\<forall>dx dy. hyp dx dy = hyp \<bar>dx\<bar> \<bar>dy\<bar>) \<and>
     (\<forall>dx dy dx' dy'.
        \<bar>dx\<bar> \<le> coord_bound \<and> \<bar>dy\<bar> \<le> coord_bound \<and>
        \<bar>dx'\<bar> \<le> coord_bound \<and> \<bar>dy'\<bar> \<le> coord_bound \<and>
        dx * dx + dy * dy < dx' * dx' + dy' * dy' \<longrightarrow> hyp dx dy < hyp dx' dy')"

text \<open>\<^verbatim>\<open>self.pos[n]\<close>, which raises \<^verbatim>\<open>KeyError\<close> on a missing key.\<close>

definition pos_at :: "PathGraph \<Rightarrow> string \<Rightarrow> exn + (int \<times> int)" where
  "pos_at g n = (case map_of (pos g) n of None \<Rightarrow> Inl (KeyError n) | Some p \<Rightarrow> Inr p)"

text \<open>
  The constructor. First loop: \<^verbatim>\<open>pos[z.name] = z.center; adj[z.name] = []\<close>.
\<close>

fun init_tables :: "Zone list \<Rightarrow> PathGraph \<Rightarrow> PathGraph" where
  "init_tables [] g = g"
| "init_tables (z # zs) g =
     init_tables zs
       (g\<lparr>pos := AList.update (name z) (center z) (pos g),
          adj := AList.update (name z) [] (adj g)\<rparr>)"

text \<open>
  \<^verbatim>\<open>sorted([(hypot(...), b) for b in names if a != b])\<close>: tuples compare
  lexicographically, first the computed distance and then the name. Every key of \<^verbatim>\<open>names\<close>
  is a key of \<^verbatim>\<open>pos\<close>, so the lookups cannot fail; the default is never used.
\<close>

definition pos_of :: "(string \<times> (int \<times> int)) list \<Rightarrow> string \<Rightarrow> int \<times> int" where
  "pos_of ps n = dict_get ps n (0, 0)"

definition center_dist :: "hypot_fn \<Rightarrow> (string \<times> (int \<times> int)) list \<Rightarrow> string \<Rightarrow> string \<Rightarrow> real" where
  "center_dist hyp ps a b =
     hyp (fst (pos_of ps a) - fst (pos_of ps b)) (snd (pos_of ps a) - snd (pos_of ps b))"

definition dists :: "hypot_fn \<Rightarrow> (string \<times> (int \<times> int)) list \<Rightarrow> string list \<Rightarrow> string \<Rightarrow>
    (real \<times> string) list" where
  "dists hyp ps names a = sort [(center_dist hyp ps a b, b). b \<leftarrow> names, a \<noteq> b]"

text \<open>
  The inner loop over \<^verbatim>\<open>dists[:4]\<close>: append \<open>nb\<close> to \<open>adj[a]\<close> and \<open>a\<close> to
  \<open>adj[nb]\<close> unless already there. Both names are keys of \<^verbatim>\<open>adj\<close> (the first
  loop gave every name an entry), so \<^verbatim>\<open>self.adj[a]\<close> cannot raise here either.
\<close>

definition link :: "string \<Rightarrow> string \<Rightarrow> (string \<times> string list) list \<Rightarrow> (string \<times> string list) list" where
  "link a nb ad =
     (let ad1 = (if nb \<notin> set (dict_get ad a []) then AList.update a (dict_get ad a [] @ [nb]) ad else ad)
      in if a \<notin> set (dict_get ad1 nb []) then AList.update nb (dict_get ad1 nb [] @ [a]) ad1 else ad1)"

fun link_all :: "string \<Rightarrow> string list \<Rightarrow> (string \<times> string list) list \<Rightarrow> (string \<times> string list) list" where
  "link_all a [] ad = ad"
| "link_all a (nb # nbs) ad = link_all a nbs (link a nb ad)"

definition nearest :: "hypot_fn \<Rightarrow> (string \<times> (int \<times> int)) list \<Rightarrow> string list \<Rightarrow> string \<Rightarrow>
    string list" where
  "nearest hyp ps names a = map snd (take 4 (dists hyp ps names a))"

fun build_adj :: "hypot_fn \<Rightarrow> (string \<times> (int \<times> int)) list \<Rightarrow> string list \<Rightarrow> string list \<Rightarrow>
    (string \<times> string list) list \<Rightarrow> (string \<times> string list) list" where
  "build_adj hyp ps names [] ad = ad"
| "build_adj hyp ps names (a # as) ad =
     build_adj hyp ps names as (link_all a (nearest hyp ps names a) ad)"

definition PathGraph_init :: "hypot_fn \<Rightarrow> Zone list \<Rightarrow> PathGraph" where
  "PathGraph_init hyp zs =
     (let g = init_tables zs \<lparr>pos = [], adj = []\<rparr>;
          names = map fst (pos g)
      in g\<lparr>adj := build_adj hyp (pos g) names names (adj g)\<rparr>)"

text \<open>Whether the centers of two names are within \<open>coord_bound\<close> of each other.\<close>

definition in_range :: "(string \<times> (int \<times> int)) list \<Rightarrow> string \<Rightarrow> string \<Rightarrow> bool" where
  "in_range ps a b \<longleftrightarrow>
     \<bar>fst (pos_of ps a) - fst (pos_of ps b)\<bar> \<le> coord_bound \<and>
     \<bar>snd (pos_of ps a) - snd (pos_of ps b)\<bar> \<le> coord_bound"

text \<open>
  \<^verbatim>\<open>find\<close>: breadth-first search with a queue of paths. \<open>visit\<close> is the inner
  \<^verbatim>\<open>for nb in self.adj.get(path[-1], [])\<close> loop; \<open>bfs\<close> the \<^verbatim>\<open>while queue\<close>
  loop, \<open>None\<close> when the queue runs empty. \<^verbatim>\<open>path[-1]\<close> on an empty path would
  raise \<^verbatim>\<open>IndexError\<close>.
\<close>

fun visit :: "string list \<Rightarrow> string list \<Rightarrow> string set \<times> string list list \<Rightarrow>
    string set \<times> string list list" where
  "visit path [] sq = sq"
| "visit path (nb # nbs) (seen, queue) =
     (if nb \<notin> seen then visit path nbs (insert nb seen, queue @ [path @ [nb]])
      else visit path nbs (seen, queue))"

definition nodes :: "PathGraph \<Rightarrow> string set" where
  "nodes g = (\<Union>(n, l) \<in> set (adj g). set l)"

lemma visit_seen: "fst (visit path nbs (seen, queue)) = seen \<union> set nbs"
  by (induction nbs arbitrary: seen queue) auto

lemma visit_length:
  "finite U \<Longrightarrow> set nbs \<subseteq> U \<Longrightarrow>
   length (snd (visit path nbs (seen, queue))) + card (U - (seen \<union> set nbs))
     = length queue + card (U - seen)"
proof (induction nbs arbitrary: seen queue)
  case Nil
  then show ?case by simp
next
  case (Cons nb nbs)
  show ?case
  proof (cases "nb \<in> seen")
    case True
    then have "seen \<union> set (nb # nbs) = seen \<union> set nbs" by auto
    with Cons True show ?thesis by simp
  next
    case False
    have eq: "insert nb seen \<union> set nbs = seen \<union> set (nb # nbs)" by auto
    have "nb \<in> U - seen" using Cons.prems False by auto
    then have c: "card (U - seen) = Suc (card (U - insert nb seen))"
      using Cons.prems(1)
      by (metis Diff_insert card_Suc_Diff1 finite_Diff)
    have "length (snd (visit path nbs (insert nb seen, queue @ [path @ [nb]])))
            + card (U - (insert nb seen \<union> set nbs))
          = length (queue @ [path @ [nb]]) + card (U - insert nb seen)"
      using Cons.IH [of "insert nb seen" "queue @ [path @ [nb]]"] Cons.prems by simp
    with False c eq show ?thesis by simp
  qed
qed

lemma adj_get_nodes: "set (dict_get (adj g) n []) \<subseteq> nodes g"
proof (cases "map_of (adj g) n")
  case None
  then show ?thesis by (simp add: dict_get_def)
next
  case (Some l)
  then have "(n, l) \<in> set (adj g)" by (rule map_of_SomeD)
  then have "set l \<subseteq> nodes g" by (auto simp: nodes_def)
  with Some show ?thesis by (simp add: dict_get_def)
qed

function bfs :: "PathGraph \<Rightarrow> string \<Rightarrow> string list list \<Rightarrow> string set \<Rightarrow>
    exn + string list option" where
  "bfs g end [] seen = Inr None"
| "bfs g end (path # queue) seen =
     (if path = [] then Inl IndexError
      else if last path = end then Inr (Some path)
      else bfs g end (snd (visit path (dict_get (adj g) (last path) []) (seen, queue)))
                     (fst (visit path (dict_get (adj g) (last path) []) (seen, queue))))"
  by pat_completeness auto
termination
proof (relation "measure (\<lambda>(g, e, queue, seen). 2 * card (nodes g - seen) + length queue)")
  show "wf (measure (\<lambda>(g, e, queue, seen). 2 * card (nodes g - seen) + length queue))" by simp
next
  fix g :: PathGraph and "end" :: string and path :: "string list"
    and queue :: "string list list" and seen :: "string set"
  let ?nbs = "dict_get (adj g) (last path) []"
  have fin: "finite (nodes g)" by (auto simp: nodes_def)
  have sub: "set ?nbs \<subseteq> nodes g" by (rule adj_get_nodes)
  have len: "length (snd (visit path ?nbs (seen, queue))) + card (nodes g - (seen \<union> set ?nbs))
      = length queue + card (nodes g - seen)"
    by (rule visit_length [OF fin sub])
  have "card (nodes g - (seen \<union> set ?nbs)) \<le> card (nodes g - seen)"
    by (rule card_mono) (use fin in auto)
  with len show "((g, end, snd (visit path ?nbs (seen, queue)), fst (visit path ?nbs (seen, queue))),
      (g, end, path # queue, seen))
    \<in> measure (\<lambda>(g, e, queue, seen). 2 * card (nodes g - seen) + length queue)"
    by (simp add: visit_seen)
qed

text \<open>\<^verbatim>\<open>[self.pos[n] for n in path]\<close>, stopping at the first missing key.\<close>

fun centers :: "PathGraph \<Rightarrow> string list \<Rightarrow> exn + (int \<times> int) list" where
  "centers g [] = Inr []"
| "centers g (n # ns) =
     (case pos_at g n of
        Inl e \<Rightarrow> Inl e
      | Inr p \<Rightarrow> (case centers g ns of Inl e \<Rightarrow> Inl e | Inr ps \<Rightarrow> Inr (p # ps)))"

definition find :: "PathGraph \<Rightarrow> string \<Rightarrow> string \<Rightarrow> exn + (int \<times> int) list" where
  "find g start end =
     (if start = end then
        (case pos_at g start of Inl e \<Rightarrow> Inl e | Inr p \<Rightarrow> Inr [p])
      else
        (case bfs g end [[start]] {start} of
           Inl e \<Rightarrow> Inl e
         | Inr (Some path) \<Rightarrow> centers g path
         | Inr None \<Rightarrow>
             (case pos_at g start of
                Inl e \<Rightarrow> Inl e
              | Inr p \<Rightarrow> (case pos_at g end of Inl e \<Rightarrow> Inl e | Inr q \<Rightarrow> Inr [p, q]))))"

text \<open>
  Vocabulary for the properties of \<^verbatim>\<open>find\<close>. A walk is a non-empty list of
  names in which each name is in the adjacency list of the one before it; two names are
  connected when a walk leads from the first to the second. \<open>fresh\<close> lists the
  neighbours that one run of the inner loop adds to the queue, and \<open>bfs_inv\<close> is what
  holds of the queue and the seen set at the head of the \<^verbatim>\<open>while\<close> loop of a search
  from \<open>s\<close> for \<open>e\<close>.
\<close>

fun walk :: "PathGraph \<Rightarrow> string list \<Rightarrow> bool" where
  "walk g [] \<longleftrightarrow> False"
| "walk g [x] \<longleftrightarrow> True"
| "walk g (x # y # ys) \<longleftrightarrow> y \<in> set (dict_get (adj g) x []) \<and> walk g (y # ys)"

definition connected :: "PathGraph \<Rightarrow> string \<Rightarrow> string \<Rightarrow> bool" where
  "connected g a b \<longleftrightarrow> (\<exists>p. walk g p \<and> hd p = a \<and> last p = b)"

fun fresh :: "string set \<Rightarrow> string list \<Rightarrow> string list" where
  "fresh seen [] = []"
| "fresh seen (nb # nbs) =
     (if nb \<notin> seen then nb # fresh (insert nb seen) nbs else fresh seen nbs)"

definition bfs_inv :: "PathGraph \<Rightarrow> string \<Rightarrow> string \<Rightarrow> string list list \<Rightarrow> string set \<Rightarrow> bool" where
  "bfs_inv g s e q seen \<longleftrightarrow>
     s \<in> seen \<and>
     (\<forall>p \<in> set q. walk g p \<and> hd p = s \<and> last p \<in> seen) \<and>
     distinct (map last q) \<and>
     sorted (map length q) \<and>
     (\<forall>p \<in> set q. length p \<le> Suc (length (hd q))) \<and>
     (\<forall>p \<in> set q. \<forall>w. walk g w \<and> hd w = s \<and> last w = last p \<longrightarrow> length p \<le> length w) \<and>
     (q \<noteq> [] \<longrightarrow> (\<forall>w. walk g w \<and> hd w = s \<and> last w \<notin> seen \<longrightarrow> length (hd q) < length w)) \<and>
     (\<forall>u \<in> seen - last ` set q. set (dict_get (adj g) u []) \<subseteq> seen) \<and>
     (e \<in> seen \<longrightarrow> e \<in> last ` set q)"

subsection \<open>Agent\<close>

record Agent =
  agent_id :: string
  agent_name :: string
  agent_color :: "nat \<times> nat \<times> nat"
  home :: Zone
  graph :: PathGraph
  zones :: "Zone list"
  agent_pos :: "real \<times> real"
  zone :: "Zone option"
  health :: real
  alive :: bool
  death_reason :: string
  thought :: string
  needs :: "Need \<Rightarrow> real"
  goal :: Goal
  target :: "Zone option"
  path :: "(int \<times> int) list"
  path_i :: nat
  wait :: nat

text \<open>
  \<^verbatim>\<open>assign\<close>. The pair returned is the agent after the call and the exception
  that left it, if any: \<^verbatim>\<open>goal\<close>, \<^verbatim>\<open>target\<close> and \<^verbatim>\<open>wait\<close> are written before
  \<^verbatim>\<open>graph.find\<close> runs, so they stay written when it raises.
\<close>

definition assign :: "Agent \<Rightarrow> Goal \<Rightarrow> Zone option \<Rightarrow> Agent \<times> exn option" where
  "assign a g t =
     (if \<not> alive a then (a, None)
      else if g = IDLE then (a\<lparr>goal := IDLE, target := None, path := []\<rparr>, None)
      else if (case (zone a, t) of (Some z, Some tz) \<Rightarrow> name z = name tz | _ \<Rightarrow> False)
        then (a, None)
      else if goal a = g \<and> target a = t \<and> path a \<noteq> [] then (a, None)
      else
        (let a1 = a\<lparr>goal := g, target := t, wait := 0\<rparr>
         in case t of
              None \<Rightarrow> (a1, None)
            | Some tz \<Rightarrow>
                (case find (graph a1)
                        (case zone a1 of Some z \<Rightarrow> name z | None \<Rightarrow> name (home a1))
                        (name tz) of
                   Inl e \<Rightarrow> (a1, Some e)
                 | Inr p \<Rightarrow> (a1\<lparr>path := p, path_i := 0\<rparr>, None))))"

definition decay :: "Agent \<Rightarrow> Agent" where
  "decay a = a\<lparr>needs := (\<lambda>k. max 0 (needs a k - NEED_DECAY))\<rparr>"

definition boost :: "Need \<times> real \<Rightarrow> (Need \<Rightarrow> real) \<Rightarrow> (Need \<Rightarrow> real)" where
  "boost e ns = ns(fst e := min 10 (ns (fst e) + snd e))"

definition zone_effect :: "Agent \<Rightarrow> Agent" where
  "zone_effect a =
     (case zone a of
        None \<Rightarrow> a
      | Some z \<Rightarrow> a\<lparr>needs := fold boost (ZONE_EFFECTS (type z)) (needs a)\<rparr>)"

text \<open>
  \<^verbatim>\<open>min(self.needs, key=self.needs.get)\<close>: Python's \<open>min\<close> keeps the first
  element whose key is smallest; a later one replaces it only when strictly smaller.
\<close>

fun min_key :: "('a \<Rightarrow> real) \<Rightarrow> 'a \<Rightarrow> 'a list \<Rightarrow> 'a" where
  "min_key f best [] = best"
| "min_key f best (x # xs) = min_key f (if f x < f best then x else best) xs"

definition lowest_key :: "(Need \<Rightarrow> real) \<Rightarrow> Need" where
  "lowest_key ns = min_key ns (hd need_keys) (tl need_keys)"

definition crit_count :: "Agent \<Rightarrow> nat" where
  "crit_count a = length (filter (\<lambda>k. needs a k < CRITICAL) need_keys)"

text \<open>The health after the first \<^verbatim>\<open>if\<close> of \<^verbatim>\<open>_health_check\<close>.\<close>

definition adjusted_health :: "Agent \<Rightarrow> real" where
  "adjusted_health a =
     (if crit_count a > 0 then health a - 3 / 100 * real (crit_count a)
      else min MAX_HEALTH (health a + 1 / 100))"

definition health_check :: "Agent \<Rightarrow> Agent" where
  "health_check a =
     (let a1 = a\<lparr>health := adjusted_health a\<rparr>
      in if health a1 \<le> 0
         then a1\<lparr>alive := False, health := 0,
                 death_reason := NEED_NAMES (lowest_key (needs a1)), path := []\<rparr>
         else a1)"

definition move :: "Agent \<Rightarrow> Agent" where
  "move a =
     (if path a = [] \<or> path_i a \<ge> length (path a) then a
      else
        (let tx = real_of_int (fst (path a ! path_i a));
             ty = real_of_int (snd (path a ! path_i a));
             dx = tx - fst (agent_pos a);
             dy = ty - snd (agent_pos a);
             dist = hypot dx dy
         in if dist < MOVE_SPEED then
              (let a1 = a\<lparr>agent_pos := (tx, ty), path_i := path_i a + 1\<rparr>
               in if path_i a1 \<ge> length (path a1)
                  then a1\<lparr>path := [], goal := IDLE, wait := 0\<rparr>
                  else a1)
            else a\<lparr>agent_pos := (fst (agent_pos a) + dx / dist * MOVE_SPEED,
                                  snd (agent_pos a) + dy / dist * MOVE_SPEED)\<rparr>))"

definition detect_zone :: "Agent \<Rightarrow> Agent" where
  "detect_zone a =
     a\<lparr>zone := List.find (\<lambda>z. collidepoint (rect z) (fst (agent_pos a)) (snd (agent_pos a)))
                 (zones a)\<rparr>"

definition tick :: "Agent \<Rightarrow> Agent" where
  "tick a =
     (if \<not> alive a then a
      else
        (let a1 = detect_zone (move (health_check (zone_effect (decay a))))
         in if goal a1 = IDLE then a1\<lparr>wait := wait a1 + 1\<rparr> else a1))"

text \<open>\<open>n\<close> calls of \<^verbatim>\<open>tick\<close> in a row.\<close>

definition ticks :: "nat \<Rightarrow> Agent \<Rightarrow> Agent" where
  "ticks n a = (tick ^^ n) a"

definition in_bounds :: "Agent \<Rightarrow> bool" where
  "in_bounds a \<longleftrightarrow>
     0 \<le> needs a hunger \<and> needs a hunger \<le> 10 \<and>
     0 \<le> needs a energy \<and> needs a energy \<le> 10 \<and>
     0 \<le> needs a social \<and> needs a social \<le> 10 \<and>
     0 \<le> needs a work \<and> needs a work \<le> 10 \<and>
     0 \<le> health a \<and> health a \<le> 100"

text \<open>
  The dataclass defaults and \<^verbatim>\<open>__post_init__\<close>. The four initial needs are drawn
  with \<^verbatim>\<open>random.uniform\<close>; they are a parameter here.
\<close>

definition Agent_init :: "string \<Rightarrow> string \<Rightarrow> nat \<times> nat \<times> nat \<Rightarrow> Zone \<Rightarrow> PathGraph \<Rightarrow>
    (Need \<Rightarrow> real) \<Rightarrow> Agent" where
  "Agent_init i n c h g ns =
     \<lparr>agent_id = i, agent_name = n, agent_color = c, home = h, graph = g, zones = [],
      agent_pos = (real_of_int (fst (center h)), real_of_int (snd (center h))),
      zone = Some h, health = 100, alive = True, death_reason = [], thought = ''...'',
      needs = ns, goal = IDLE, target = None, path = [], path_i = 0, wait = 0\<rparr>"

subsection \<open>World\<close>

record World =
  world_zones :: "Zone list"
  world_graph :: PathGraph
  agents :: "(string \<times> Agent) list"
  tick_count :: nat

definition ZONE_HOME :: "nat \<times> nat \<times> nat" where "ZONE_HOME = (40, 45, 75)"
definition ZONE_WORK :: "nat \<times> nat \<times> nat" where "ZONE_WORK = (65, 50, 40)"
definition ZONE_CAFE :: "nat \<times> nat \<times> nat" where "ZONE_CAFE = (75, 55, 45)"
definition ZONE_PARK :: "nat \<times> nat \<times> nat" where "ZONE_PARK = (35, 65, 45)"
definition ZONE_ROAD :: "nat \<times> nat \<times> nat" where "ZONE_ROAD = (30, 30, 35)"

definition make_zones :: "Zone list" where
  "make_zones =
     [\<lparr>name = ''home_a'', type = HOME, rect = (50, 70, 130, 130), color = ZONE_HOME\<rparr>,
      \<lparr>name = ''home_b'', type = HOME, rect = (50, 260, 130, 130), color = ZONE_HOME\<rparr>,
      \<lparr>name = ''home_c'', type = HOME, rect = (50, 450, 130, 130), color = ZONE_HOME\<rparr>,
      \<lparr>name = ''office'', type = WORK, rect = (700, 140, 200, 180), color = ZONE_WORK\<rparr>,
      \<lparr>name = ''cafe'', type = CAFE, rect = (400, 70, 170, 150), color = ZONE_CAFE\<rparr>,
      \<lparr>name = ''park'', type = PARK, rect = (400, 450, 260, 180), color = ZONE_PARK\<rparr>,
      \<lparr>name = ''road'', type = ROAD, rect = (260, 0, 50, 700), color = ZONE_ROAD\<rparr>]"

definition BLUE :: "nat \<times> nat \<times> nat" where "BLUE = (10, 132, 255)"
definition GREEN :: "nat \<times> nat \<times> nat" where "GREEN = (48, 209, 88)"
definition ORANGE :: "nat \<times> nat \<times> nat" where "ORANGE = (255, 159, 10)"

text \<open>
  \<^verbatim>\<open>_make_agents\<close> and \<^verbatim>\<open>World.__init__\<close>; \<open>ns\<close> gives the initial needs of
  each agent id. \<^verbatim>\<open>make_zones\<close> has three home zones, so \<^verbatim>\<open>homes[2]\<close> exists.
\<close>

definition make_agents :: "Zone list \<Rightarrow> PathGraph \<Rightarrow> (string \<Rightarrow> Need \<Rightarrow> real) \<Rightarrow> (string \<times> Agent) list" where
  "make_agents zs g ns =
     (let homes = filter (\<lambda>z. type z = HOME) zs
      in map (\<lambda>(k, a). (k, a\<lparr>zones := zs\<rparr>))
           [(''A'', Agent_init ''A'' ''Alice'' BLUE (homes ! 0) g (ns ''A'')),
            (''B'', Agent_init ''B'' ''Bob'' GREEN (homes ! 1) g (ns ''B'')),
            (''C'', Agent_init ''C'' ''Charlie'' ORANGE (homes ! 2) g (ns ''C''))])"

definition World_init :: "hypot_fn \<Rightarrow> (string \<Rightarrow> Need \<Rightarrow> real) \<Rightarrow> World" where
  "World_init hyp ns =
     (let zs = make_zones; g = PathGraph_init hyp zs
      in \<lparr>world_zones = zs, world_graph = g, agents = make_agents zs g ns, tick_count = 0\<rparr>)"

definition zone_by_type :: "World \<Rightarrow> ZoneType \<Rightarrow> Zone option" where
  "zone_by_type w zt = List.find (\<lambda>z. type z = zt) (world_zones w)"

definition update :: "World \<Rightarrow> World" where
  "update w = w\<lparr>tick_count := tick_count w + 1,
                agents := map (\<lambda>(k, a). (k, tick a)) (agents w)\<rparr>"

subsection \<open>Brain\<close>

text \<open>
  What \<^verbatim>\<open>json.loads\<close> returns for a text that starts with a brace is a dictionary
  or a \<^verbatim>\<open>JSONDecodeError\<close>. \<^verbatim>\<open>_parse\<close> looks at its items, at whether each
  value is itself a dictionary, and at \<^verbatim>\<open>str\<close> of what that holds under
  \<^verbatim>\<open>"goal"\<close>. A value is therefore a string or something else known by its
  \<^verbatim>\<open>str\<close> text; an entry is a dictionary or a non-dictionary known by its type name.
  The decoder is a library function and a parameter of the model: \<open>None\<close> stands
  for \<^verbatim>\<open>JSONDecodeError\<close>.
\<close>

datatype jval = VStr string | VOther string

datatype jentry = EDict "(string \<times> jval) list" | ENonDict string

type_synonym decoder = "string \<Rightarrow> (string \<times> jentry) list option"

fun py_str :: "jval \<Rightarrow> string" where
  "py_str (VStr s) = s"
| "py_str (VOther t) = t"

text \<open>
  \<^verbatim>\<open>str.strip\<close> and \<^verbatim>\<open>str.lower\<close> follow the Unicode tables of the library,
  so they are parameters as well, gathered with the decoder in one record. What is known
  of them here is how they act on ASCII text (\<open>text_ok\<close>): \<^verbatim>\<open>strip\<close> removes the
  whitespace characters at both ends, which are tab to carriage return, the four
  separators 0x1C to 0x1F and the space, and \<^verbatim>\<open>lower\<close> maps the letters A to Z to
  a to z and leaves every other character alone.
\<close>

record Lib =
  json_loads :: decoder
  str_strip :: "string \<Rightarrow> string"
  str_lower :: "string \<Rightarrow> string"

definition ascii :: "string \<Rightarrow> bool" where
  "ascii s \<longleftrightarrow> (\<forall>c \<in> set s. (of_char c :: nat) < 128)"

definition is_space :: "char \<Rightarrow> bool" where
  "is_space c \<longleftrightarrow>
     c \<in> {CHR 0x09, CHR 0x0A, CHR 0x0B, CHR 0x0C, CHR 0x0D,
          CHR 0x1C, CHR 0x1D, CHR 0x1E, CHR 0x1F, CHR 0x20}"

definition ascii_strip :: "string \<Rightarrow> string" where
  "ascii_strip s = rev (dropWhile is_space (rev (dropWhile is_space s)))"

definition lower_char :: "char \<Rightarrow> char" where
  "lower_char c =
     dict_get (zip ''ABCDEFGHIJKLMNOPQRSTUVWXYZ'' ''abcdefghijklmnopqrstuvwxyz'') c c"

definition ascii_lower :: "string \<Rightarrow> string" where
  "ascii_lower s = map lower_char s"

definition text_ok :: "Lib \<Rightarrow> bool" where
  "text_ok lib \<longleftrightarrow>
     (\<forall>s. ascii s \<longrightarrow> str_strip lib s = ascii_strip s \<and> str_lower lib s = ascii_lower s)"

definition goal_map :: "(string \<times> Goal) list" where
  "goal_map = [(''idle'', IDLE), (''go_home'', GO_HOME), (''go_work'', GO_WORK),
     (''go_cafe'', GO_CAFE), (''go_park'', GO_PARK)]"

text \<open>
  \<^verbatim>\<open>re.search(r"\{[\s\S]*\}", text)\<close>: the match starts at the first opening brace
  and, the star being greedy, ends at the last closing brace after it; there is no match
  when no closing brace follows the first opening one.
\<close>

definition brace_span :: "string \<Rightarrow> string option" where
  "brace_span text =
     (let from_open = dropWhile (\<lambda>c. c \<noteq> CHR ''{'') text;
          m = rev (dropWhile (\<lambda>c. c \<noteq> CHR ''}'') (rev from_open))
      in if m = [] then None else Some m)"

text \<open>\<^verbatim>\<open>raw_goal = str(act.get("goal", "")).strip().lower()\<close>.\<close>

definition raw_goal :: "Lib \<Rightarrow> (string \<times> jval) list \<Rightarrow> string" where
  "raw_goal lib act = str_lower lib (str_strip lib (py_str (dict_get act ''goal'' (VStr []))))"

text \<open>One round of the \<^verbatim>\<open>for aid, act in data.items()\<close> loop.\<close>

definition apply_entry :: "Lib \<Rightarrow> World \<Rightarrow> string \<times> jentry \<Rightarrow> World \<times> exn option" where
  "apply_entry lib w e =
     (case map_of (agents w) (fst e) of
        None \<Rightarrow> (w, None)
      | Some agent \<Rightarrow>
          if \<not> alive agent then (w, None)
          else
            (case snd e of
               ENonDict ty \<Rightarrow>
                 (w, Some (AttributeError ([CHR 0x27] @ ty @ [CHR 0x27] @ '' object has no attribute '' @ [CHR 0x27] @ ''get'' @ [CHR 0x27])))
             | EDict act \<Rightarrow>
                 (case map_of goal_map (raw_goal lib act) of
                    None \<Rightarrow> (w, None)
                  | Some g \<Rightarrow>
                      if g = IDLE then (w, None)
                      else
                        (case ZONE_FOR_GOAL g of
                           None \<Rightarrow> (w, None)
                         | Some zone_type \<Rightarrow>
                             (case (if g = GO_HOME then Some (home agent)
                                    else zone_by_type w zone_type) of
                                None \<Rightarrow> (w, None)
                              | Some t \<Rightarrow>
                                  (let r = assign agent g (Some t)
                                   in (w\<lparr>agents := AList.update (fst e) (fst r) (agents w)\<rparr>,
                                       snd r)))))))"

fun apply_entries :: "Lib \<Rightarrow> World \<Rightarrow> (string \<times> jentry) list \<Rightarrow> World \<times> exn option" where
  "apply_entries lib w [] = (w, None)"
| "apply_entries lib w (e # es) =
     (case apply_entry lib w e of
        (w1, Some x) \<Rightarrow> (w1, Some x)
      | (w1, None) \<Rightarrow> apply_entries lib w1 es)"

definition parse :: "Lib \<Rightarrow> World \<Rightarrow> string \<Rightarrow> World \<times> exn option" where
  "parse lib w text =
     (case brace_span text of
        None \<Rightarrow> (w, None)
      | Some m \<Rightarrow>
          (case json_loads lib m of
             None \<Rightarrow> (w, None)
           | Some data \<Rightarrow> apply_entries lib w data))"

text \<open>
  What the request of \<^verbatim>\<open>_ask\<close> meets: a response with a status and the text of its
  \<^verbatim>\<open>content\<close> field, the timeout of the session, any other failure of the request
  (with the text of the exception), or the cancellation of the task.
\<close>

datatype outcome = Responded nat string | TimedOut | ReqFailed string | Cancelled

fun digits :: "nat \<Rightarrow> string" where
  "digits n =
     (if n < 10 then [''0123456789'' ! n]
      else digits (n div 10) @ [''0123456789'' ! (n mod 10)])"

declare digits.simps [simp del]

definition ask :: "outcome \<Rightarrow> exn + string" where
  "ask out =
     (case out of
        Responded status content \<Rightarrow>
          if status = 200 then Inr content else Inl (RuntimeError (''HTTP '' @ digits status))
      | TimedOut \<Rightarrow> Inl TimeoutError
      | ReqFailed msg \<Rightarrow> Inl (ClientError msg)
      | Cancelled \<Rightarrow> Inl CancelledError)"

text \<open>
  \<^verbatim>\<open>str(e)\<close>, and whether \<^verbatim>\<open>except Exception\<close> catches \<open>e\<close>:
  \<^verbatim>\<open>asyncio.CancelledError\<close> derives from \<^verbatim>\<open>BaseException\<close> only.
\<close>

fun str_exn :: "exn \<Rightarrow> string" where
  "str_exn (KeyError k) = [CHR 0x27] @ k @ [CHR 0x27]"
| "str_exn IndexError = ''list index out of range''"
| "str_exn (AttributeError m) = m"
| "str_exn (RuntimeError m) = m"
| "str_exn TimeoutError = []"
| "str_exn (ClientError m) = m"
| "str_exn CancelledError = []"

fun is_Exception :: "exn \<Rightarrow> bool" where
  "is_Exception CancelledError = False"
| "is_Exception e = True"

record Brain =
  world :: World
  raw :: string
  busy :: bool

text \<open>
  What a call of \<^verbatim>\<open>decide\<close> does besides changing the state: the request it
  sends and the texts it hands to \<^verbatim>\<open>_parse\<close>, in order.
\<close>

datatype event = Request | Parse string

record Round =
  brain :: Brain
  events :: "event list"
  escaped :: "exn option"

text \<open>
  \<^verbatim>\<open>decide\<close>, with the \<^verbatim>\<open>try\<close> body, the \<^verbatim>\<open>except Exception\<close> handler and
  the \<^verbatim>\<open>finally\<close> clause as three steps. \<^verbatim>\<open>_prompt\<close> only reads the agents.
\<close>

definition try_body :: "Lib \<Rightarrow> outcome \<Rightarrow> Brain \<Rightarrow> Round" where
  "try_body lib out b =
     (case ask out of
        Inl e \<Rightarrow> \<lparr>brain = b, events = [Request], escaped = Some e\<rparr>
      | Inr text \<Rightarrow>
          (let r = parse lib (world b) text
           in \<lparr>brain = b\<lparr>raw := text, world := fst r\<rparr>,
               events = [Request, Parse text], escaped = snd r\<rparr>))"

definition except_Exception :: "Round \<Rightarrow> Round" where
  "except_Exception r =
     (case escaped r of
        None \<Rightarrow> r
      | Some e \<Rightarrow>
          if is_Exception e then r\<lparr>brain := (brain r)\<lparr>raw := str_exn e\<rparr>, escaped := None\<rparr>
          else r)"

definition finally_clause :: "Round \<Rightarrow> Round" where
  "finally_clause r = r\<lparr>brain := (brain r)\<lparr>busy := False\<rparr>\<rparr>"

definition decide :: "Lib \<Rightarrow> outcome \<Rightarrow> Brain \<Rightarrow> Round" where
  "decide lib out b =
     (if busy b then \<lparr>brain = b, events = [], escaped = None\<rparr>
      else finally_clause (except_Exception (try_body lib out (b\<lparr>busy := True\<rparr>))))"

text \<open>The two kinds of failed round: what the request met, and what the text held.\<close>

definition transport_error :: "outcome \<Rightarrow> bool" where
  "transport_error out \<longleftrightarrow>
     (case out of Responded status content \<Rightarrow> status \<noteq> 200 | TimedOut \<Rightarrow> True
      | ReqFailed msg \<Rightarrow> True | Cancelled \<Rightarrow> False)"

definition parse_error :: "Lib \<Rightarrow> outcome \<Rightarrow> bool" where
  "parse_error lib out \<longleftrightarrow>
     (case out of
        Responded status content \<Rightarrow>
          status = 200 \<and>
          (case brace_span content of None \<Rightarrow> True | Some m \<Rightarrow> json_loads lib m = None)
      | _ \<Rightarrow> False)"

subsection \<open>A sample world\<close>

text \<open>
  The world of \<^verbatim>\<open>World.__init__\<close> with every need drawn as 5 and the graph built
  from exact distances, its agent A, and a brain that is not busy; concrete inputs for
  the theorems below.
\<close>

definition sample_world :: World where
  "sample_world = World_init exact_hypot (\<lambda>i k. 5)"

definition alice :: Agent where
  "alice = (Agent_init ''A'' ''Alice'' BLUE (make_zones ! 0) (PathGraph_init exact_hypot make_zones)
       (\<lambda>k. 5))
     \<lparr>zones := make_zones\<rparr>"

definition cafe_zone :: Zone where
  "cafe_zone = make_zones ! 4"

text \<open>Agent B of that world, and its park.\<close>

definition bob :: Agent where
  "bob = (Agent_init ''B'' ''Bob'' GREEN (make_zones ! 1) (PathGraph_init exact_hypot make_zones)
       (\<lambda>k. 5))
     \<lparr>zones := make_zones\<rparr>"

definition park_zone :: Zone where
  "park_zone = make_zones ! 5"

definition sample_brain :: Brain where
  "sample_brain = \<lparr>world = sample_world, raw = [], busy = False\<rparr>"

text \<open>Agent A with all needs at 0 and almost no health left.\<close>

definition starving :: Agent where
  "starving = alice\<lparr>health := 3 / 100, needs := (\<lambda>k. 0)\<rparr>"

text \<open>Agent A one step before the end of a one-point path to the cafe.\<close>

definition arriving :: Agent where
  "arriving = alice\<lparr>goal := GO_CAFE, target := Some cafe_zone, path := [center cafe_zone],
     path_i := 0, agent_pos := (485, 145), zone := None\<rparr>"

text \<open>Ten small zones in two groups far apart, five in each.\<close>

definition two_islands :: "Zone list" where
  "two_islands =
     map (\<lambda>(n, x). \<lparr>name = n, type = PARK, rect = (x, 0, 2, 2), color = ZONE_PARK\<rparr>)
       [(''a0'', 0), (''a1'', 10), (''a2'', 40), (''a3'', 90), (''a4'', 160),
        (''b0'', 1000), (''b1'', 1010), (''b2'', 1040), (''b3'', 1090), (''b4'', 1160)]"

text \<open>
  A stand-in for \<^verbatim>\<open>json.loads\<close> that agrees with it on the texts used below: it
  decodes three objects, and rejects every other text, as \<^verbatim>\<open>json.loads\<close> rejects
  a text that holds no object or one object followed by more data.
\<close>

definition sample_loads :: decoder where
  "sample_loads t =
     (if t = ''{\"A\":{\"goal\":\"go_cafe\"}}''
      then Some [(''A'', EDict [(''goal'', VStr ''go_cafe'')])]
      else if t = ''{\"A\":{\"goal\":\" Go_Cafe \"},\"B\":{\"goal\":\"go_park\"}}''
      then Some [(''A'', EDict [(''goal'', VStr '' Go_Cafe '')]),
                 (''B'', EDict [(''goal'', VStr ''go_park'')])]
      else if t = ''{}'' then Some []
      else None)"

text \<open>
  The library functions used in the concrete rounds below: that decoder, and the two
  string functions as they act on ASCII text.
\<close>

definition sample_lib :: Lib where
  "sample_lib = \<lparr>json_loads = sample_loads, str_strip = ascii_strip, str_lower = ascii_lower\<rparr>"

text \<open>Agent A standing idle in the cafe, and the sample world with A there.\<close>

definition alice_in_cafe :: Agent where
  "alice_in_cafe = alice\<lparr>agent_pos := (485, 145), zone := Some cafe_zone\<rparr>"

definition cafe_world :: World where
  "cafe_world = sample_world\<lparr>agents := AList.update ''A'' alice_in_cafe (agents sample_world)\<rparr>"

section \<open>Properties\<close>

subsection \<open>Helper lemmas about one tick\<close>

lemma alice_fields:
  "alive alice" "health alice = 100" "needs alice = (\<lambda>k. 5)" "path alice = []"
  "zone alice = Some (make_zones ! 0)" "goal alice = IDLE" "target alice = None"
  by (simp_all add: alice_def Agent_init_def)

lemma sample_world_A: "map_of (agents sample_world) ''A'' = Some alice"
  by (simp add: sample_world_def World_init_def make_agents_def alice_def Let_def make_zones_def)

lemma in_bounds_all:
  "in_bounds a \<longleftrightarrow> (\<forall>k. 0 \<le> needs a k \<and> needs a k \<le> 10) \<and> 0 \<le> health a \<and> health a \<le> 100"
proof -
  have "(\<forall>k. 0 \<le> needs a k \<and> needs a k \<le> 10) \<longleftrightarrow>
    (0 \<le> needs a hunger \<and> needs a hunger \<le> 10 \<and>
     0 \<le> needs a energy \<and> needs a energy \<le> 10 \<and>
     0 \<le> needs a social \<and> needs a social \<le> 10 \<and>
     0 \<le> needs a work \<and> needs a work \<le> 10)" (is "?L \<longleftrightarrow> ?R")
  proof
    assume ?L then show ?R by blast
  next
    assume r: ?R
    show ?L
    proof
      fix k show "0 \<le> needs a k \<and> needs a k \<le> 10" using r by (cases k) auto
    qed
  qed
  then show ?thesis by (auto simp: in_bounds_def)
qed

lemma boost_bounds:
  "(\<forall>k. 0 \<le> ns k \<and> ns k \<le> 10) \<Longrightarrow> 0 \<le> snd e \<Longrightarrow>
   (\<forall>k. 0 \<le> boost e ns k \<and> boost e ns k \<le> 10)"
  by (auto simp: boost_def)

lemma fold_boost_bounds:
  "(\<forall>k. 0 \<le> ns k \<and> ns k \<le> 10) \<Longrightarrow> (\<forall>e \<in> set es. 0 \<le> snd e) \<Longrightarrow>
   (\<forall>k. 0 \<le> fold boost es ns k \<and> fold boost es ns k \<le> 10)"
proof (induction es arbitrary: ns)
  case Nil
  then show ?case by simp
next
  case (Cons e es)
  have "\<forall>k. 0 \<le> boost e ns k \<and> boost e ns k \<le> 10"
    using Cons.prems by (intro boost_bounds) auto
  then show ?case using Cons.IH [of "boost e ns"] Cons.prems by simp
qed

lemma ZONE_EFFECTS_nonneg: "\<forall>e \<in> set (ZONE_EFFECTS zt). 0 \<le> snd e"
  by (cases zt) auto

lemma decay_bounds: "in_bounds a \<Longrightarrow> in_bounds (decay a)"
proof -
  assume a: "in_bounds a"
  have "0 \<le> max 0 (needs a k - NEED_DECAY) \<and> max 0 (needs a k - NEED_DECAY) \<le> 10" for k
  proof -
    have "needs a k \<le> 10" using a by (simp add: in_bounds_all)
    then show ?thesis by (simp add: NEED_DECAY_def)
  qed
  with a show ?thesis by (simp add: in_bounds_all decay_def)
qed

lemma zone_effect_bounds: "in_bounds a \<Longrightarrow> in_bounds (zone_effect a)"
  using fold_boost_bounds [OF _ ZONE_EFFECTS_nonneg]
  by (auto simp: in_bounds_all zone_effect_def split: option.splits)

lemma health_check_bounds: "in_bounds a \<Longrightarrow> in_bounds (health_check a)"
  by (auto simp: in_bounds_all health_check_def adjusted_health_def MAX_HEALTH_def Let_def)

lemma move_bounds: "in_bounds a \<Longrightarrow> in_bounds (move a)"
  by (simp add: in_bounds_all move_def Let_def)

lemma detect_zone_bounds: "in_bounds a \<Longrightarrow> in_bounds (detect_zone a)"
  by (simp add: in_bounds_all detect_zone_def)

lemma tick_bounds: "in_bounds a \<Longrightarrow> in_bounds (tick a)"
proof -
  assume a: "in_bounds a"
  let ?a1 = "detect_zone (move (health_check (zone_effect (decay a))))"
  have b: "in_bounds ?a1"
    by (intro detect_zone_bounds move_bounds health_check_bounds zone_effect_bounds
          decay_bounds a)
  then have "in_bounds (?a1\<lparr>wait := wait ?a1 + 1\<rparr>)" by (simp add: in_bounds_all)
  with a b show ?thesis by (simp add: tick_def Let_def)
qed

lemma tick_needs: "alive a \<Longrightarrow> needs (tick a) = needs (zone_effect (decay a))"
  by (simp add: tick_def Let_def detect_zone_def move_def health_check_def)

lemma tick_target: "target (tick a) = target a"
  by (simp add: tick_def Let_def detect_zone_def move_def health_check_def zone_effect_def
        decay_def split: option.splits)


lemma min_key_le: "f (min_key f b xs) \<le> f b \<and> (\<forall>x \<in> set xs. f (min_key f b xs) \<le> f x)"
proof (induction xs arbitrary: b)
  case Nil
  then show ?case by simp
next
  case (Cons x xs)
  show ?case using Cons.IH [of "if f x < f b then x else b"] by (auto split: if_splits)
qed

lemma lowest_key_le: "ns (lowest_key ns) \<le> ns k"
  using min_key_le [of ns hunger "[energy, social, work]"]
  by (cases k) (auto simp: lowest_key_def need_keys_def)

lemma lowest_key_first:
  assumes "i < j" and "j < length need_keys" and "need_keys ! j = lowest_key ns"
  shows "ns (lowest_key ns) < ns (need_keys ! i)"
proof -
  have j4: "j = 0 \<or> j = 1 \<or> j = 2 \<or> j = 3" using assms(2) by (auto simp: need_keys_def)
  have lk: "lowest_key ns = min_key ns hunger [energy, social, work]"
    by (simp add: lowest_key_def need_keys_def)
  from j4 assms(1) have "(i, j) \<in> {(0,1), (0,2), (1,2), (0,3), (1,3), (2,3)}" by auto
  then show ?thesis using assms(3) unfolding lk
    by (auto simp: need_keys_def split: if_splits)
qed




subsection \<open>C1: needs and health stay in range\<close>

text \<open>
  Claim C1. From any agent state in which each of the four needs lies in \<open>[0, 10]\<close>
  and the health in \<open>[0, 100]\<close>, the state after any number of calls of
  \<^verbatim>\<open>Agent.tick\<close> satisfies the same bounds.
\<close>

theorem needs_and_health_stay_in_bounds:
  "in_bounds a \<Longrightarrow> in_bounds (ticks n a)"
  unfolding ticks_def by (induction n) (auto intro: tick_bounds)

theorem needs_and_health_stay_in_bounds_witness:
  "in_bounds alice \<and> in_bounds (ticks 3 alice)"
proof -
  have h: "in_bounds alice" by (simp add: in_bounds_def alice_fields)
  from h needs_and_health_stay_in_bounds [OF h, of 3] show ?thesis by simp
qed

subsection \<open>C2: death\<close>

text \<open>
  Claim C2. When the health computed by the health check of a tick is zero or less for
  a living agent, the tick leaves the agent dead with health 0 and an empty path; the
  death reason is the \<^verbatim>\<open>NEED_NAMES\<close> name of the need that is lowest at that tick,
  the first one in iteration order among equals (every need that comes earlier is
  strictly greater); and the agent stays as it is for good: further ticks and any
  \<^verbatim>\<open>assign\<close> leave the whole state, the dead flag included, unchanged.
\<close>

theorem death_is_final_and_names_lowest_need:
  assumes "alive a" and "adjusted_health (zone_effect (decay a)) \<le> 0"
  shows "\<not> alive (tick a) \<and> health (tick a) = 0 \<and> path (tick a) = [] \<and>
    death_reason (tick a) = NEED_NAMES (lowest_key (needs (tick a))) \<and>
    (\<forall>k. needs (tick a) (lowest_key (needs (tick a))) \<le> needs (tick a) k) \<and>
    (\<forall>i j. i < j \<and> j < length need_keys \<and> need_keys ! j = lowest_key (needs (tick a)) \<longrightarrow>
        needs (tick a) (lowest_key (needs (tick a))) < needs (tick a) (need_keys ! i)) \<and>
    (\<forall>n. ticks n (tick a) = tick a) \<and>
    (\<forall>g t. assign (tick a) g t = (tick a, None))"
proof -
  let ?b = "zone_effect (decay a)"
  let ?c = "health_check ?b"
  have c: "?c = ?b\<lparr>health := 0, alive := False,
      death_reason := NEED_NAMES (lowest_key (needs ?b)), path := []\<rparr>"
    using assms(2) by (simp add: health_check_def Let_def)
  have mv: "move ?c = ?c" by (simp add: move_def c)
  let ?d = "detect_zone ?c"
  have t: "tick a = (if goal ?d = IDLE then ?d\<lparr>wait := wait ?d + 1\<rparr> else ?d)"
    using assms(1) by (simp add: tick_def mv Let_def)
  have d: "\<not> alive ?d" "health ?d = 0" "path ?d = []" "needs ?d = needs ?b"
    "death_reason ?d = NEED_NAMES (lowest_key (needs ?b))"
    by (simp_all add: detect_zone_def c)
  have r: "\<not> alive (tick a)" "health (tick a) = 0" "path (tick a) = []"
    "needs (tick a) = needs ?b"
    "death_reason (tick a) = NEED_NAMES (lowest_key (needs ?b))"
    using d by (simp_all add: t)
  have frozen: "ticks n (tick a) = tick a" for n
    unfolding ticks_def using r(1) by (induction n) (simp_all add: tick_def)
  show ?thesis
    using r frozen lowest_key_le lowest_key_first
    by (auto simp: assign_def)
qed

lemma starving_dies: "alive starving" "adjusted_health (zone_effect (decay starving)) \<le> 0"
   by (simp_all add: starving_def alice_fields adjusted_health_def crit_count_def need_keys_def
        zone_effect_def decay_def make_zones_def boost_def CRITICAL_def NEED_DECAY_def)

lemma starving_lowest: "lowest_key (needs (tick starving)) = hunger"
  using starving_dies(1)
  by (simp add: tick_needs starving_def alice_fields lowest_key_def need_keys_def
        zone_effect_def decay_def make_zones_def boost_def NEED_DECAY_def)

theorem death_is_final_and_names_lowest_need_witness:
  "alive starving \<and> adjusted_health (zone_effect (decay starving)) \<le> 0 \<and>
   \<not> alive (tick starving) \<and> health (tick starving) = 0 \<and> path (tick starving) = [] \<and>
   death_reason (tick starving) = name_hunger \<and> ticks 5 (tick starving) = tick starving"
  using death_is_final_and_names_lowest_need [OF starving_dies] starving_dies starving_lowest
  by simp

subsection \<open>C7: a dead agent is inert\<close>

text \<open>
  Claim C7. For an agent that is not alive, \<^verbatim>\<open>tick\<close> returns the state
  unchanged (no decay, zone effect, health change, movement, zone detection or wait
  increment), and \<^verbatim>\<open>assign\<close> with any goal and target returns it unchanged and
  raises nothing.
\<close>

theorem dead_agent_is_inert:
  "\<not> alive a \<Longrightarrow> tick a = a \<and> assign a g t = (a, None)"
  by (simp add: tick_def assign_def)

theorem dead_agent_is_inert_witness:
  "\<not> alive (alice\<lparr>alive := False\<rparr>) \<and> tick (alice\<lparr>alive := False\<rparr>) = alice\<lparr>alive := False\<rparr> \<and>
   assign (alice\<lparr>alive := False\<rparr>) GO_CAFE (Some cafe_zone) = (alice\<lparr>alive := False\<rparr>, None)"
  using dead_agent_is_inert [of "alice\<lparr>alive := False\<rparr>" GO_CAFE "Some cafe_zone"] by simp

subsection \<open>C8: an agent whose needs stay uncritical\<close>




subsection \<open>C10: reaching the last waypoint\<close>

text \<open>
  Claim C10. Take a living agent that survives the health check of a tick and whose
  cursor stands on the last waypoint of a non-empty path, less than one step away. The
  movement step of that tick clears the path, sets the goal to \<^verbatim>\<open>IDLE\<close> and the
  wait counter to 0, and leaves the target as it was. When the tick returns, the path is
  empty, the goal is \<^verbatim>\<open>IDLE\<close>, the target is still the one it had, and the wait
  counter, reset to 0 by the movement step, has been advanced to 1 by the idle increment
  that ends the tick. Later ticks never touch the target; \<^verbatim>\<open>assign\<close> with
  \<^verbatim>\<open>IDLE\<close> clears it.
\<close>

theorem arrival_resets_goal_but_not_target:
  assumes "alive a" and "0 < adjusted_health (zone_effect (decay a))"
    and "path a \<noteq> []" and "Suc (path_i a) = length (path a)"
    and "hypot (real_of_int (fst (path a ! path_i a)) - fst (agent_pos a))
               (real_of_int (snd (path a ! path_i a)) - snd (agent_pos a)) < MOVE_SPEED"
  shows "path (move (health_check (zone_effect (decay a)))) = [] \<and>
         goal (move (health_check (zone_effect (decay a)))) = IDLE \<and>
         wait (move (health_check (zone_effect (decay a)))) = 0 \<and>
         target (move (health_check (zone_effect (decay a)))) = target a \<and>
         path (tick a) = [] \<and> goal (tick a) = IDLE \<and> target (tick a) = target a \<and>
         wait (tick a) = 1 \<and>
         (\<forall>n. target (ticks n (tick a)) = target a) \<and>
         (\<forall>t. target (fst (assign (tick a) IDLE t)) = None)"
proof -
  let ?b = "health_check (zone_effect (decay a))"
  have b: "?b = (zone_effect (decay a))\<lparr>health := adjusted_health (zone_effect (decay a))\<rparr>"
    using assms(2) by (simp add: health_check_def Let_def)
  have f: "path ?b = path a" "path_i ?b = path_i a" "agent_pos ?b = agent_pos a"
    "target ?b = target a" "alive ?b"
    using assms(1) unfolding b by (simp_all add: zone_effect_def decay_def split: option.splits)
  have m: "path (move ?b) = [] \<and> goal (move ?b) = IDLE \<and> wait (move ?b) = 0 \<and>
      target (move ?b) = target a \<and> alive (move ?b)"
    using assms(3-5) unfolding move_def f Let_def by (simp add: f)
  then have t: "path (tick a) = [] \<and> goal (tick a) = IDLE \<and> target (tick a) = target a \<and>
      wait (tick a) = 1 \<and> alive (tick a)"
    using assms(1) by (simp add: tick_def Let_def detect_zone_def)
  have k: "target (ticks n (tick a)) = target a" for n
    by (induction n) (simp_all add: ticks_def tick_target)
  have c: "target (fst (assign (tick a) IDLE t)) = None" for t
    using t by (simp add: assign_def)
  from m t k c show ?thesis by simp
qed

lemma arriving_fields:
  "alive arriving" "0 < adjusted_health (zone_effect (decay arriving))"
  "path arriving \<noteq> []" "Suc (path_i arriving) = length (path arriving)"
  "hypot (real_of_int (fst (path arriving ! path_i arriving)) - fst (agent_pos arriving))
         (real_of_int (snd (path arriving ! path_i arriving)) - snd (agent_pos arriving)) < MOVE_SPEED"
  "target arriving = Some cafe_zone"
  by (simp_all add: arriving_def alice_fields adjusted_health_def crit_count_def need_keys_def
        zone_effect_def decay_def CRITICAL_def NEED_DECAY_def MAX_HEALTH_def
        cafe_zone_def make_zones_def center_def hypot_def MOVE_SPEED_def)

theorem arrival_resets_goal_but_not_target_witness:
  "alive arriving \<and> 0 < adjusted_health (zone_effect (decay arriving)) \<and>
   path arriving \<noteq> [] \<and> Suc (path_i arriving) = length (path arriving) \<and>
   goal (tick arriving) = IDLE \<and> path (tick arriving) = [] \<and>
   target (tick arriving) = Some cafe_zone \<and> wait (tick arriving) = 1"
  using arrival_resets_goal_but_not_target [OF arriving_fields(1-5)] arriving_fields
  by simp

subsection \<open>C9: \<^verbatim>\<open>decide\<close> while busy\<close>

text \<open>
  Claim C9. Called while the busy flag is set, \<^verbatim>\<open>decide\<close> sends no request,
  parses nothing and returns the brain (busy flag, raw response, world and agents)
  exactly as it was, whatever the service would have answered.
\<close>

theorem decide_while_busy_is_noop:
  "busy b \<Longrightarrow> decide lib out b = \<lparr>brain = b, events = [], escaped = None\<rparr>"
  by (simp add: decide_def)

theorem decide_while_busy_is_noop_witness:
  "busy (sample_brain\<lparr>busy := True\<rparr>) \<and>
   decide sample_lib (Responded 200 ''{}'') (sample_brain\<lparr>busy := True\<rparr>)
     = \<lparr>brain = sample_brain\<lparr>busy := True\<rparr>, events = [], escaped = None\<rparr>"
  using decide_while_busy_is_noop [of "sample_brain\<lparr>busy := True\<rparr>" sample_lib "Responded 200 ''{}''"]
  by simp

subsection \<open>C6: a failed round\<close>

text \<open>
  Claim C6. In a round that starts (the brain is not busy) and meets a transport error
  (a status other than 200, the timeout, a failed request) or a parse error (no brace
  span in the text, or a span the decoder rejects), the world and every agent in it are
  unchanged, no exception leaves \<^verbatim>\<open>decide\<close>, the busy flag is off afterwards,
  and when the request raised, the stored raw response is the text of that exception.
\<close>

theorem failed_round_changes_no_agent:
  assumes "\<not> busy b" and "transport_error out \<or> parse_error lib out"
  shows "world (brain (decide lib out b)) = world b \<and>
         escaped (decide lib out b) = None \<and>
         \<not> busy (brain (decide lib out b)) \<and>
         (\<forall>e. ask out = Inl e \<longrightarrow> raw (brain (decide lib out b)) = str_exn e)"
proof (cases out)
  case (Responded status content)
  show ?thesis
  proof (cases "status = 200")
    case True
    with assms(2) Responded
    have "case brace_span content of None \<Rightarrow> True | Some m \<Rightarrow> json_loads lib m = None"
      by (simp add: transport_error_def parse_error_def)
    then have "parse lib (world b) content = (world b, None)"
      by (simp add: parse_def split: option.splits)
    with assms(1) Responded True show ?thesis
      by (simp add: decide_def try_body_def ask_def except_Exception_def finally_clause_def Let_def)
  next
    case False
    with assms(1) Responded show ?thesis
      by (simp add: decide_def try_body_def ask_def except_Exception_def finally_clause_def)
  qed
next
  case TimedOut
  with assms(1) show ?thesis
    by (simp add: decide_def try_body_def ask_def except_Exception_def finally_clause_def)
next
  case (ReqFailed msg)
  with assms(1) show ?thesis
    by (simp add: decide_def try_body_def ask_def except_Exception_def finally_clause_def)
next
  case Cancelled
  with assms(2) show ?thesis by (simp add: transport_error_def parse_error_def)
qed

lemma no_brace: "brace_span ''I cannot help'' = None"
  by (simp add: brace_span_def)

theorem failed_round_changes_no_agent_witness:
  "\<not> busy sample_brain \<and> parse_error sample_lib (Responded 200 ''I cannot help'') \<and>
   transport_error (Responded 503 []) \<and>
   world (brain (decide sample_lib (Responded 200 ''I cannot help'') sample_brain)) = sample_world \<and>
   escaped (decide sample_lib (Responded 200 ''I cannot help'') sample_brain) = None \<and>
   \<not> busy (brain (decide sample_lib (Responded 200 ''I cannot help'') sample_brain)) \<and>
   raw (brain (decide sample_lib (Responded 503 []) sample_brain)) = ''HTTP 503''"
proof -
  have nb: "\<not> busy sample_brain" by (simp add: sample_brain_def)
  have pe: "parse_error sample_lib (Responded 200 ''I cannot help'')"
    by (simp add: parse_error_def no_brace)
  have te: "transport_error (Responded 503 [])" by (simp add: transport_error_def)
  have d: "digits 503 = ''503''" by (simp add: digits.simps)
  have a: "ask (Responded 503 []) = Inl (RuntimeError ''HTTP 503'')"
    by (simp add: ask_def d)
  from failed_round_changes_no_agent [OF nb disjI2, OF pe]
       failed_round_changes_no_agent [OF nb disjI1, OF te, of sample_lib] a nb pe te
  show ?thesis by (simp add: sample_brain_def)
qed

subsection \<open>Helper lemmas about the construction of the graph\<close>

lemma dict_get_update:
  "dict_get (AList.update k v al) x d = (if x = k then v else dict_get al x d)"
  by (simp add: dict_get_def update_conv')

lemma update_same_keys: "k \<in> set (map fst al) \<Longrightarrow> map fst (AList.update k v al) = map fst al"
  by (simp add: update_keys)

lemma link_members:
  "set (dict_get (link a nb ad) x []) =
     set (dict_get ad x []) \<union> (if x = a then {nb} else {}) \<union> (if x = nb then {a} else {})"
  by (auto simp: link_def Let_def dict_get_update)

lemma link_distinct:
  "(\<forall>x. distinct (dict_get ad x [])) \<Longrightarrow> distinct (dict_get (link a nb ad) x [])"
  by (auto simp: link_def Let_def dict_get_update)

lemma link_keys:
  "a \<in> set (map fst ad) \<Longrightarrow> nb \<in> set (map fst ad) \<Longrightarrow> map fst (link a nb ad) = map fst ad"
  by (simp add: link_def Let_def update_same_keys)

lemma link_all_members:
  "set (dict_get (link_all a nbs ad) x []) =
     set (dict_get ad x []) \<union> (if x = a then set nbs else {}) \<union> (if x \<in> set nbs then {a} else {})"
  by (induction nbs arbitrary: ad) (auto simp: link_members)

lemma link_all_distinct:
  "(\<forall>x. distinct (dict_get ad x [])) \<Longrightarrow> distinct (dict_get (link_all a nbs ad) x [])"
  by (induction nbs arbitrary: ad x) (auto simp: link_distinct)

lemma link_all_keys:
  "a \<in> set (map fst ad) \<Longrightarrow> set nbs \<subseteq> set (map fst ad) \<Longrightarrow>
   map fst (link_all a nbs ad) = map fst ad"
proof (induction nbs arbitrary: ad)
  case Nil
  then show ?case by simp
next
  case (Cons nb nbs)
  have k: "map fst (link a nb ad) = map fst ad"
    using Cons.prems by (intro link_keys) auto
  show ?case using Cons.IH [of "link a nb ad"] Cons.prems by (simp add: k)
qed

lemma build_adj_members:
  "set (dict_get (build_adj hyp ps names as ad) x []) =
     set (dict_get ad x []) \<union> (if x \<in> set as then set (nearest hyp ps names x) else {})
       \<union> {a \<in> set as. x \<in> set (nearest hyp ps names a)}"
  by (induction as arbitrary: ad) (auto simp: link_all_members)

lemma build_adj_distinct:
  "(\<forall>x. distinct (dict_get ad x [])) \<Longrightarrow> distinct (dict_get (build_adj hyp ps names as ad) x [])"
  by (induction as arbitrary: ad x) (auto simp: link_all_distinct)

lemma nearest_subset: "set (nearest hyp ps names a) \<subseteq> set names - {a}"
proof -
  have "set (nearest hyp ps names a) \<subseteq> snd ` set (dists hyp ps names a)"
    unfolding nearest_def by (auto dest: in_set_takeD)
  also have "\<dots> \<subseteq> set names - {a}" by (auto simp: dists_def)
  finally show ?thesis .
qed

lemma build_adj_keys:
  "set as \<subseteq> set (map fst ad) \<Longrightarrow> set names \<subseteq> set (map fst ad) \<Longrightarrow>
   map fst (build_adj hyp ps names as ad) = map fst ad"
proof (induction as arbitrary: ad)
  case Nil
  then show ?case by simp
next
  case (Cons a as)
  have k: "map fst (link_all a (nearest hyp ps names a) ad) = map fst ad"
    using Cons.prems nearest_subset [of hyp ps names a] by (intro link_all_keys) auto
  show ?case using Cons.IH [of "link_all a (nearest hyp ps names a) ad"] Cons.prems by (simp add: k)
qed

lemma init_tables_keys:
  "map fst (pos g) = map fst (adj g) \<Longrightarrow>
   map fst (pos (init_tables zs g)) = map fst (adj (init_tables zs g)) \<and>
   set (map fst (pos (init_tables zs g))) = set (map fst (pos g)) \<union> name ` set zs"
proof (induction zs arbitrary: g)
  case Nil
  then show ?case by simp
next
  case (Cons z zs)
  let ?g = "g\<lparr>pos := AList.update (name z) (center z) (pos g),
              adj := AList.update (name z) [] (adj g)\<rparr>"
  have k: "map fst (pos ?g) = map fst (adj ?g)" using Cons.prems by (simp add: update_keys)
  have s: "set (map fst (pos ?g)) = insert (name z) (set (map fst (pos g)))"
    by (auto simp: update_keys)
  from Cons.IH [OF k]
  have a: "map fst (pos (init_tables zs ?g)) = map fst (adj (init_tables zs ?g))"
    and b: "set (map fst (pos (init_tables zs ?g))) = set (map fst (pos ?g)) \<union> name ` set zs"
    by blast+
  have c: "set (map fst (pos (init_tables zs ?g))) = set (map fst (pos g)) \<union> name ` set (z # zs)"
    unfolding b s by auto
  show ?case unfolding init_tables.simps using a c by blast
qed

lemma init_tables_distinct:
  "distinct (map fst (pos g)) \<Longrightarrow> distinct (map fst (pos (init_tables zs g)))"
  by (induction zs arbitrary: g) (auto simp: distinct_update)

lemma init_tables_empty:
  "(\<forall>x. dict_get (adj g) x [] = []) \<Longrightarrow> dict_get (adj (init_tables zs g)) x [] = []"
  by (induction zs arbitrary: g x) (auto simp: dict_get_update)

lemma filter_other_length:
  "distinct xs \<Longrightarrow> a \<in> set xs \<Longrightarrow> length (filter (\<lambda>b. a \<noteq> b) xs) = length xs - 1"
proof (induction xs)
  case Nil
  then show ?case by simp
next
  case (Cons x xs)
  show ?case
  proof (cases "a = x")
    case True
    with Cons.prems have "filter (\<lambda>b. a \<noteq> b) xs = xs" by (auto simp: filter_id_conv)
    with True show ?thesis by simp
  next
    case False
    with Cons have "length (filter (\<lambda>b. a \<noteq> b) xs) = length xs - 1" and "xs \<noteq> []" by auto
    with False show ?thesis by (cases xs) auto
  qed
qed

lemma others_map:
  "[(f b, b). b \<leftarrow> names, a \<noteq> b] = map (\<lambda>b. (f b, b)) (filter (\<lambda>b. a \<noteq> b) names)"
  by (induction names) auto

lemma nearest_length:
  "distinct names \<Longrightarrow> a \<in> set names \<Longrightarrow>
   length (nearest hyp ps names a) = min 4 (length names - 1)"
  by (simp add: nearest_def dists_def others_map filter_other_length min.commute)

lemma nearest_distinct: "distinct names \<Longrightarrow> distinct (nearest hyp ps names a)"
proof -
  assume d: "distinct names"
  let ?xs = "[(center_dist hyp ps a b, b). b \<leftarrow> names, a \<noteq> b]"
  have "map snd ?xs = filter (\<lambda>b. a \<noteq> b) names" by (simp add: others_map comp_def)
  then have "distinct (map snd ?xs)" using d by simp
  then have "distinct (map snd (dists hyp ps names a))"
    unfolding dists_def by (simp add: distinct_map)
  then have "distinct (take 4 (map snd (dists hyp ps names a)))" by (rule distinct_take)
  then show ?thesis by (simp add: nearest_def take_map)
qed

lemma nearest_closest:
  assumes "b \<in> set (nearest hyp ps names a)" and "c \<in> set names" and "c \<noteq> a"
    and "c \<notin> set (nearest hyp ps names a)"
  shows "center_dist hyp ps a b \<le> center_dist hyp ps a c \<and>
         (center_dist hyp ps a b = center_dist hyp ps a c \<longrightarrow> b < c)"
proof -
  let ?l = "dists hyp ps names a"
  have srt: "sorted (take 4 ?l @ drop 4 ?l)" by (simp add: dists_def)
  have mem: "set ?l = {(center_dist hyp ps a x, x) | x. x \<in> set names \<and> a \<noteq> x}"
    by (auto simp: dists_def)
  obtain e where e: "(e, b) \<in> set (take 4 ?l)" using assms(1) by (auto simp: nearest_def)
  then have "(e, b) \<in> set ?l" by (rule in_set_takeD)
  then have eb: "e = center_dist hyp ps a b" using mem by auto
  have "(center_dist hyp ps a c, c) \<in> set ?l" using assms(2,3) mem by auto
  then have "(center_dist hyp ps a c, c) \<in> set (take 4 ?l) \<union> set (drop 4 ?l)"
    by (metis append_take_drop_id set_append)
  moreover have "(center_dist hyp ps a c, c) \<notin> set (take 4 ?l)"
    using assms(4) by (force simp: nearest_def)
  ultimately have "(center_dist hyp ps a c, c) \<in> set (drop 4 ?l)" by blast
  with srt e have le: "(e, b) \<le> (center_dist hyp ps a c, c)"
    unfolding sorted_append by blast
  have "b \<noteq> c" using assms(1,4) by auto
  with le show ?thesis unfolding eb by auto
qed

lemma hypot_ok_sign:
  assumes "hypot_ok hyp"
  shows "hyp (- dx) dy = hyp dx dy" and "hyp dx (- dy) = hyp dx dy"
proof -
  from assms have "\<forall>dx dy. hyp dx dy = hyp \<bar>dx\<bar> \<bar>dy\<bar>"
    unfolding hypot_ok_def by (rule conjunct1)
  then have a: "hyp x y = hyp \<bar>x\<bar> \<bar>y\<bar>" for x y by simp
  show "hyp (- dx) dy = hyp dx dy" using a [of "- dx" dy] a [of dx dy] by simp
  show "hyp dx (- dy) = hyp dx dy" using a [of dx "- dy"] a [of dx dy] by simp
qed

lemma hypot_ok_less:
  assumes "hypot_ok hyp"
    and "\<bar>dx\<bar> \<le> coord_bound" "\<bar>dy\<bar> \<le> coord_bound" "\<bar>dx'\<bar> \<le> coord_bound" "\<bar>dy'\<bar> \<le> coord_bound"
    and "dx * dx + dy * dy < dx' * dx' + dy' * dy'"
  shows "hyp dx dy < hyp dx' dy'"
proof -
  from assms(1) have "\<forall>dx dy dx' dy'.
        \<bar>dx\<bar> \<le> coord_bound \<and> \<bar>dy\<bar> \<le> coord_bound \<and>
        \<bar>dx'\<bar> \<le> coord_bound \<and> \<bar>dy'\<bar> \<le> coord_bound \<and>
        dx * dx + dy * dy < dx' * dx' + dy' * dy' \<longrightarrow> hyp dx dy < hyp dx' dy'"
    unfolding hypot_ok_def by (rule conjunct2)
  from this [rule_format, of dx dy dx' dy'] assms(2-6) show ?thesis by (simp only: simp_thms)
qed

lemma hypot_ok_cmp:
  assumes "hypot_ok hyp"
    and "\<bar>dx\<bar> \<le> coord_bound" "\<bar>dy\<bar> \<le> coord_bound" "\<bar>dx'\<bar> \<le> coord_bound" "\<bar>dy'\<bar> \<le> coord_bound"
    and "dx * dx + dy * dy \<noteq> dx' * dx' + dy' * dy'"
  shows "hyp dx dy < hyp dx' dy' \<longleftrightarrow> dx * dx + dy * dy < dx' * dx' + dy' * dy'"
    and "hyp dx dy \<le> hyp dx' dy' \<longleftrightarrow> dx * dx + dy * dy < dx' * dx' + dy' * dy'"
    and "hyp dx dy = hyp dx' dy' \<longleftrightarrow> False"
proof -
  consider "dx * dx + dy * dy < dx' * dx' + dy' * dy'" | "dx' * dx' + dy' * dy' < dx * dx + dy * dy"
    using assms(6) by linarith
  then have "(hyp dx dy < hyp dx' dy' \<longleftrightarrow> dx * dx + dy * dy < dx' * dx' + dy' * dy') \<and>
      (hyp dx dy \<le> hyp dx' dy' \<longleftrightarrow> dx * dx + dy * dy < dx' * dx' + dy' * dy') \<and>
      hyp dx dy \<noteq> hyp dx' dy'"
  proof cases
    case 1
    from hypot_ok_less [OF assms(1-5) 1] 1 show ?thesis by simp
  next
    case 2
    from hypot_ok_less [OF assms(1) assms(4,5) assms(2,3) 2] 2 show ?thesis by simp
  qed
  then show "hyp dx dy < hyp dx' dy' \<longleftrightarrow> dx * dx + dy * dy < dx' * dx' + dy' * dy'"
    and "hyp dx dy \<le> hyp dx' dy' \<longleftrightarrow> dx * dx + dy * dy < dx' * dx' + dy' * dy'"
    and "hyp dx dy = hyp dx' dy' \<longleftrightarrow> False"
    by simp_all
qed

lemma exact_hypot_ok: "hypot_ok exact_hypot"
proof -
  have a: "exact_hypot dx dy = sqrt (real_of_int (dx * dx + dy * dy))" for dx dy
    by (simp add: exact_hypot_def hypot_def)
  have b: "\<bar>dx\<bar> * \<bar>dx\<bar> + \<bar>dy\<bar> * \<bar>dy\<bar> = dx * dx + dy * dy" for dx dy :: int
    by (simp add: abs_mult_self_eq)
  have c: "exact_hypot dx dy = exact_hypot \<bar>dx\<bar> \<bar>dy\<bar>" for dx dy
    unfolding a b ..
  have d: "exact_hypot dx dy < exact_hypot dx' dy'"
    if "dx * dx + dy * dy < dx' * dx' + dy' * dy'" for dx dy dx' dy'
    unfolding a using that by (simp only: real_sqrt_less_iff of_int_less_iff)
  show ?thesis
    unfolding hypot_ok_def
  proof (intro conjI allI impI)
    fix dx dy show "exact_hypot dx dy = exact_hypot \<bar>dx\<bar> \<bar>dy\<bar>" by (rule c)
  next
    fix dx dy dx' dy'
    assume "\<bar>dx\<bar> \<le> coord_bound \<and> \<bar>dy\<bar> \<le> coord_bound \<and>
      \<bar>dx'\<bar> \<le> coord_bound \<and> \<bar>dy'\<bar> \<le> coord_bound \<and>
      dx * dx + dy * dy < dx' * dx' + dy' * dy'"
    then have "dx * dx + dy * dy < dx' * dx' + dy' * dy'" by simp
    then show "exact_hypot dx dy < exact_hypot dx' dy'" by (rule d)
  qed
qed

lemma nearest_euclid:
  assumes "hypot_ok hyp" and "b \<in> set (nearest hyp ps names a)" and "c \<in> set names"
    and "c \<noteq> a" and "c \<notin> set (nearest hyp ps names a)"
    and "in_range ps a b" and "in_range ps a c"
  shows "center_dist exact_hypot ps a b \<le> center_dist exact_hypot ps a c"
proof (rule ccontr)
  let ?bx = "fst (pos_of ps a) - fst (pos_of ps b)" and ?by = "snd (pos_of ps a) - snd (pos_of ps b)"
  let ?cx = "fst (pos_of ps a) - fst (pos_of ps c)" and ?cy = "snd (pos_of ps a) - snd (pos_of ps c)"
  assume "\<not> center_dist exact_hypot ps a b \<le> center_dist exact_hypot ps a c"
  then have "sqrt (real_of_int (?cx * ?cx + ?cy * ?cy)) < sqrt (real_of_int (?bx * ?bx + ?by * ?by))"
    by (simp add: center_dist_def exact_hypot_def hypot_def)
  then have "?cx * ?cx + ?cy * ?cy < ?bx * ?bx + ?by * ?by"
    by (simp only: real_sqrt_less_iff of_int_less_iff)
  then have "hyp ?cx ?cy < hyp ?bx ?by"
    using assms(1,6,7) by (intro hypot_ok_less) (simp_all add: in_range_def)
  then have "center_dist hyp ps a c < center_dist hyp ps a b" by (simp add: center_dist_def)
  moreover have "center_dist hyp ps a b \<le> center_dist hyp ps a c"
    using nearest_closest [OF assms(2-5)] by blast
  ultimately show False by simp
qed

lemma graph_members:
  "set (dict_get (adj (PathGraph_init hyp zs)) a []) =
     {b. a \<in> set (map fst (pos (PathGraph_init hyp zs))) \<and>
         b \<in> set (nearest hyp (pos (PathGraph_init hyp zs)) (map fst (pos (PathGraph_init hyp zs))) a)}
     \<union> {b \<in> set (map fst (pos (PathGraph_init hyp zs))).
         a \<in> set (nearest hyp (pos (PathGraph_init hyp zs)) (map fst (pos (PathGraph_init hyp zs))) b)}"
proof -
  let ?g0 = "init_tables zs \<lparr>pos = [], adj = []\<rparr>"
  have P: "pos (PathGraph_init hyp zs) = pos ?g0" by (simp add: PathGraph_init_def Let_def)
  have A: "adj (PathGraph_init hyp zs) = build_adj hyp (pos ?g0) (map fst (pos ?g0)) (map fst (pos ?g0)) (adj ?g0)"
    by (simp add: PathGraph_init_def Let_def)
  have e0: "dict_get (adj ?g0) x [] = []" for x
    by (rule init_tables_empty) (simp add: dict_get_def)
  show ?thesis unfolding P A build_adj_members by (auto simp: e0)
qed

lemma graph_distinct: "distinct (dict_get (adj (PathGraph_init hyp zs)) a [])"
proof -
  let ?g0 = "init_tables zs \<lparr>pos = [], adj = []\<rparr>"
  have A: "adj (PathGraph_init hyp zs) = build_adj hyp (pos ?g0) (map fst (pos ?g0)) (map fst (pos ?g0)) (adj ?g0)"
    by (simp add: PathGraph_init_def Let_def)
  have e0: "dict_get (adj ?g0) x [] = []" for x
    by (rule init_tables_empty) (simp add: dict_get_def)
  show ?thesis unfolding A by (rule build_adj_distinct) (simp add: e0)
qed

lemma graph_key_list:
  "map fst (adj (PathGraph_init hyp zs)) = map fst (pos (PathGraph_init hyp zs))"
  "distinct (map fst (pos (PathGraph_init hyp zs)))"
  "set (map fst (pos (PathGraph_init hyp zs))) = name ` set zs"
proof -
  let ?g0 = "init_tables zs \<lparr>pos = [], adj = []\<rparr>"
  let ?N = "map fst (pos ?g0)"
  have P: "pos (PathGraph_init hyp zs) = pos ?g0" by (simp add: PathGraph_init_def Let_def)
  have A: "adj (PathGraph_init hyp zs) = build_adj hyp (pos ?g0) ?N ?N (adj ?g0)"
    by (simp add: PathGraph_init_def Let_def)
  have kn: "?N = map fst (adj ?g0) \<and>
      set ?N = set (map fst (pos \<lparr>pos = [], adj = []\<rparr>)) \<union> name ` set zs"
    by (rule init_tables_keys) simp
  have k0: "?N = map fst (adj ?g0)" using kn by blast
  have "set ?N = set (map fst (pos \<lparr>pos = [], adj = []\<rparr>)) \<union> name ` set zs"
    using kn by blast
  also have "\<dots> = name ` set zs" by simp
  finally show "set (map fst (pos (PathGraph_init hyp zs))) = name ` set zs" unfolding P .
  show "distinct (map fst (pos (PathGraph_init hyp zs)))"
    unfolding P by (rule init_tables_distinct) simp
  show "map fst (adj (PathGraph_init hyp zs)) = map fst (pos (PathGraph_init hyp zs))"
    unfolding A P using k0 by (subst build_adj_keys) auto
qed

lemma tables_make_zones:
  "pos (init_tables make_zones \<lparr>pos = [], adj = []\<rparr>) =
     [(''home_a'', (115, 135)), (''home_b'', (115, 325)), (''home_c'', (115, 515)),
      (''office'', (800, 230)), (''cafe'', (485, 145)), (''park'', (530, 540)),
      (''road'', (285, 350))]"
  "adj (init_tables make_zones \<lparr>pos = [], adj = []\<rparr>) =
     [(''home_a'', []), (''home_b'', []), (''home_c'', []),
      (''office'', []), (''cafe'', []), (''park'', []),
      (''road'', [])]"
  by (simp_all add: make_zones_def center_def)

lemma pos_make_zones:
  "pos (PathGraph_init hyp make_zones) =
     [(''home_a'', (115, 135)), (''home_b'', (115, 325)), (''home_c'', (115, 515)),
      (''office'', (800, 230)), (''cafe'', (485, 145)), (''park'', (530, 540)),
      (''road'', (285, 350))]"
  by (simp add: PathGraph_init_def Let_def tables_make_zones)

lemma nearest_make_zones:
  assumes "hypot_ok hyp"
  shows
  "nearest hyp (pos (PathGraph_init hyp make_zones)) (map fst (pos (PathGraph_init hyp make_zones))) ''home_a''
     = [''home_b'', ''road'', ''cafe'', ''home_c'']"
  "nearest hyp (pos (PathGraph_init hyp make_zones)) (map fst (pos (PathGraph_init hyp make_zones))) ''home_b''
     = [''road'', ''home_a'', ''home_c'', ''cafe'']"
  "nearest hyp (pos (PathGraph_init hyp make_zones)) (map fst (pos (PathGraph_init hyp make_zones))) ''home_c''
     = [''home_b'', ''road'', ''home_a'', ''park'']"
  "nearest hyp (pos (PathGraph_init hyp make_zones)) (map fst (pos (PathGraph_init hyp make_zones))) ''office''
     = [''cafe'', ''park'', ''road'', ''home_a'']"
  "nearest hyp (pos (PathGraph_init hyp make_zones)) (map fst (pos (PathGraph_init hyp make_zones))) ''cafe''
     = [''road'', ''office'', ''home_a'', ''park'']"
  "nearest hyp (pos (PathGraph_init hyp make_zones)) (map fst (pos (PathGraph_init hyp make_zones))) ''park''
     = [''road'', ''cafe'', ''office'', ''home_c'']"
  "nearest hyp (pos (PathGraph_init hyp make_zones)) (map fst (pos (PathGraph_init hyp make_zones))) ''road''
     = [''home_b'', ''home_c'', ''home_a'', ''cafe'']"
  unfolding pos_make_zones
  by (simp_all add: nearest_def dists_def center_dist_def pos_of_def dict_get_def
        hypot_ok_sign [OF assms] hypot_ok_cmp [OF assms] coord_bound_def)

lemma adj_make_zones:
  assumes "hypot_ok hyp"
  shows "adj (PathGraph_init hyp make_zones) =
     [(''home_a'', [''home_b'', ''road'', ''cafe'', ''home_c'', ''office'']),
      (''home_b'', [''home_a'', ''road'', ''home_c'', ''cafe'']),
      (''home_c'', [''home_a'', ''home_b'', ''road'', ''park'']),
      (''office'', [''cafe'', ''park'', ''road'', ''home_a'']),
      (''cafe'', [''home_a'', ''home_b'', ''office'', ''road'', ''park'']),
      (''park'', [''home_c'', ''office'', ''cafe'', ''road'']),
      (''road'', [''home_a'', ''home_b'', ''home_c'', ''office'', ''cafe'', ''park''])]"
  (is "_ = ?rhs")
proof -
  have "adj (PathGraph_init hyp make_zones) =
      build_adj hyp (pos (PathGraph_init hyp make_zones)) (map fst (pos (PathGraph_init hyp make_zones)))
        (map fst (pos (PathGraph_init hyp make_zones)))
        (adj (init_tables make_zones \<lparr>pos = [], adj = []\<rparr>))"
    by (simp add: PathGraph_init_def Let_def)
  also have "\<dots> = ?rhs"
    unfolding tables_make_zones
    apply (subst (3) pos_make_zones)
    apply (simp add: nearest_make_zones [OF assms] link_def dict_get_def)
    done
  finally show ?thesis .
qed

subsection \<open>C4: the adjacency structure\<close>

text \<open>
  Claim C4, amended. The adjacency structure has the zone names as its keys. The list of
  a zone holds no name twice and not the zone itself, and its members are exactly the
  zone's nearest other zones together with every zone that has this zone among its own
  nearest ones; the structure is therefore symmetric, and a zone that many others are
  near to has more than four neighbours. The nearest other zones of a zone are the first
  four (all of them when there are fewer than four others) in the order of the distance
  that \<^verbatim>\<open>math.hypot\<close> computes between the centers, equal distances in the order of
  the names: every zone left out is at least as far by that distance, and later by name
  when equally far. Where \<^verbatim>\<open>math.hypot\<close> orders as \<open>hypot_ok\<close> says and the centers
  are within range of each other, no zone left out is nearer in exact Euclidean distance
  than one that was taken.
\<close>

theorem adjacency_is_symmetric_closure:
  "map fst (adj (PathGraph_init hyp zs)) = map fst (pos (PathGraph_init hyp zs)) \<and>
   distinct (map fst (pos (PathGraph_init hyp zs))) \<and>
   set (map fst (pos (PathGraph_init hyp zs))) = name ` set zs \<and>
   (\<forall>a. distinct (dict_get (adj (PathGraph_init hyp zs)) a []) \<and>
        a \<notin> set (dict_get (adj (PathGraph_init hyp zs)) a []) \<and>
        set (dict_get (adj (PathGraph_init hyp zs)) a []) =
          {b. a \<in> name ` set zs \<and>
              b \<in> set (nearest hyp (pos (PathGraph_init hyp zs)) (map fst (pos (PathGraph_init hyp zs))) a)}
          \<union> {b \<in> name ` set zs.
              a \<in> set (nearest hyp (pos (PathGraph_init hyp zs)) (map fst (pos (PathGraph_init hyp zs))) b)}) \<and>
   (\<forall>a b. b \<in> set (dict_get (adj (PathGraph_init hyp zs)) a []) \<longleftrightarrow>
          a \<in> set (dict_get (adj (PathGraph_init hyp zs)) b [])) \<and>
   (\<forall>a. a \<in> name ` set zs \<longrightarrow>
        length (nearest hyp (pos (PathGraph_init hyp zs)) (map fst (pos (PathGraph_init hyp zs))) a)
          = min 4 (length (map fst (pos (PathGraph_init hyp zs))) - 1)) \<and>
   (\<forall>a. distinct (nearest hyp (pos (PathGraph_init hyp zs)) (map fst (pos (PathGraph_init hyp zs))) a) \<and>
        set (nearest hyp (pos (PathGraph_init hyp zs)) (map fst (pos (PathGraph_init hyp zs))) a)
          \<subseteq> name ` set zs - {a}) \<and>
   (\<forall>a b c. b \<in> set (nearest hyp (pos (PathGraph_init hyp zs)) (map fst (pos (PathGraph_init hyp zs))) a) \<and>
        c \<in> name ` set zs \<and> c \<noteq> a \<and>
        c \<notin> set (nearest hyp (pos (PathGraph_init hyp zs)) (map fst (pos (PathGraph_init hyp zs))) a) \<longrightarrow>
        center_dist hyp (pos (PathGraph_init hyp zs)) a b
          \<le> center_dist hyp (pos (PathGraph_init hyp zs)) a c \<and>
        (center_dist hyp (pos (PathGraph_init hyp zs)) a b
           = center_dist hyp (pos (PathGraph_init hyp zs)) a c \<longrightarrow> b < c)) \<and>
   (\<forall>a b c. hypot_ok hyp \<and>
        b \<in> set (nearest hyp (pos (PathGraph_init hyp zs)) (map fst (pos (PathGraph_init hyp zs))) a) \<and>
        c \<in> name ` set zs \<and> c \<noteq> a \<and>
        c \<notin> set (nearest hyp (pos (PathGraph_init hyp zs)) (map fst (pos (PathGraph_init hyp zs))) a) \<and>
        in_range (pos (PathGraph_init hyp zs)) a b \<and> in_range (pos (PathGraph_init hyp zs)) a c \<longrightarrow>
        center_dist exact_hypot (pos (PathGraph_init hyp zs)) a b
          \<le> center_dist exact_hypot (pos (PathGraph_init hyp zs)) a c)"
proof -
  let ?G = "PathGraph_init hyp zs"
  let ?P = "pos ?G"
  let ?N = "map fst ?P"
  note keys = graph_key_list [of hyp zs]
  have N: "set ?N = name ` set zs" by (rule keys(3))
  have d0: "distinct ?N" by (rule keys(2))
  have sub: "set (nearest hyp ?P ?N a) \<subseteq> set ?N - {a}" for a by (rule nearest_subset)
  have mem: "set (dict_get (adj ?G) a []) =
      {b. a \<in> set ?N \<and> b \<in> set (nearest hyp ?P ?N a)} \<union> {b \<in> set ?N. a \<in> set (nearest hyp ?P ?N b)}" for a
    by (rule graph_members)
  have noself: "a \<notin> set (dict_get (adj ?G) a [])" for a
    unfolding mem using sub by auto
  have sym: "b \<in> set (dict_get (adj ?G) a []) \<longleftrightarrow> a \<in> set (dict_get (adj ?G) b [])" for a b
    unfolding mem using sub by auto
  have c3: "set ?N = set ?N" by (rule refl)
  have c4: "distinct (dict_get (adj ?G) a []) \<and> a \<notin> set (dict_get (adj ?G) a []) \<and>
      set (dict_get (adj ?G) a []) =
      {b. a \<in> set ?N \<and> b \<in> set (nearest hyp ?P ?N a)} \<union> {b \<in> set ?N. a \<in> set (nearest hyp ?P ?N b)}" for a
    using graph_distinct [of hyp zs a] noself [of a] mem [of a] by blast
  have c6: "length (nearest hyp ?P ?N a) = min 4 (length ?N - 1)" if "a \<in> set ?N" for a
    using d0 that by (rule nearest_length)
  have c7: "distinct (nearest hyp ?P ?N a) \<and> set (nearest hyp ?P ?N a) \<subseteq> set ?N - {a}" for a
    using nearest_distinct [OF d0, of hyp ?P a] sub [of a] by blast
  have c8: "center_dist hyp ?P a b \<le> center_dist hyp ?P a c \<and>
      (center_dist hyp ?P a b = center_dist hyp ?P a c \<longrightarrow> b < c)"
    if "b \<in> set (nearest hyp ?P ?N a) \<and> c \<in> set ?N \<and> c \<noteq> a \<and> c \<notin> set (nearest hyp ?P ?N a)"
    for a b c
    using that nearest_closest [of b hyp ?P ?N a c] by blast
  have c9: "center_dist exact_hypot ?P a b \<le> center_dist exact_hypot ?P a c"
    if "hypot_ok hyp \<and> b \<in> set (nearest hyp ?P ?N a) \<and> c \<in> set ?N \<and> c \<noteq> a \<and>
        c \<notin> set (nearest hyp ?P ?N a) \<and> in_range ?P a b \<and> in_range ?P a c"
    for a b c
    using that nearest_euclid [of hyp b ?P ?N a c] by blast
  show ?thesis
    unfolding N [symmetric]
    by (intro conjI allI impI keys(1) d0 c3 c4 [THEN conjunct1]
          c4 [THEN conjunct2, THEN conjunct1] c4 [THEN conjunct2, THEN conjunct2] sym c6
          c7 [THEN conjunct1] c7 [THEN conjunct2] c8 [THEN conjunct1] c8 [THEN conjunct2, THEN mp]
          c9)
      (assumption | blast)+
qed

lemma make_zones_park: "''park'' \<in> name ` set make_zones" "''home_a'' \<in> name ` set make_zones"
  by (simp_all add: make_zones_def)

lemma make_zones_in_range:
  "in_range (pos (PathGraph_init hyp make_zones)) ''home_a'' ''cafe''"
  "in_range (pos (PathGraph_init hyp make_zones)) ''home_a'' ''park''"
  by (simp_all add: in_range_def pos_make_zones pos_of_def dict_get_def coord_bound_def)

theorem adjacency_is_symmetric_closure_witness:
  "hypot_ok exact_hypot \<and>
   ''cafe'' \<in> set (nearest exact_hypot (pos (PathGraph_init exact_hypot make_zones))
                      (map fst (pos (PathGraph_init exact_hypot make_zones))) ''home_a'') \<and>
   ''park'' \<in> name ` set make_zones \<and> ''park'' \<noteq> ''home_a'' \<and>
   ''park'' \<notin> set (nearest exact_hypot (pos (PathGraph_init exact_hypot make_zones))
                      (map fst (pos (PathGraph_init exact_hypot make_zones))) ''home_a'') \<and>
   in_range (pos (PathGraph_init exact_hypot make_zones)) ''home_a'' ''cafe'' \<and>
   in_range (pos (PathGraph_init exact_hypot make_zones)) ''home_a'' ''park'' \<and>
   center_dist exact_hypot (pos (PathGraph_init exact_hypot make_zones)) ''home_a'' ''cafe''
     \<le> center_dist exact_hypot (pos (PathGraph_init exact_hypot make_zones)) ''home_a'' ''park'' \<and>
   ''home_a'' \<in> name ` set make_zones \<and>
   length (nearest exact_hypot (pos (PathGraph_init exact_hypot make_zones))
             (map fst (pos (PathGraph_init exact_hypot make_zones))) ''home_a'')
     = min 4 (length (map fst (pos (PathGraph_init exact_hypot make_zones))) - 1)"
proof -
  let ?P = "pos (PathGraph_init exact_hypot make_zones)"
  note ok = exact_hypot_ok
  note t = adjacency_is_symmetric_closure [of exact_hypot make_zones]
  have n: "''cafe'' \<in> set (nearest exact_hypot ?P (map fst ?P) ''home_a'') \<and>
      ''park'' \<noteq> ''home_a'' \<and> ''park'' \<notin> set (nearest exact_hypot ?P (map fst ?P) ''home_a'')"
    by (simp add: nearest_make_zones [OF ok])
  have h: "hypot_ok exact_hypot \<and>
      ''cafe'' \<in> set (nearest exact_hypot ?P (map fst ?P) ''home_a'') \<and>
      ''park'' \<in> name ` set make_zones \<and> ''park'' \<noteq> ''home_a'' \<and>
      ''park'' \<notin> set (nearest exact_hypot ?P (map fst ?P) ''home_a'') \<and>
      in_range ?P ''home_a'' ''cafe'' \<and> in_range ?P ''home_a'' ''park''"
    by (intro conjI ok n [THEN conjunct1] n [THEN conjunct2, THEN conjunct1]
          n [THEN conjunct2, THEN conjunct2] make_zones_park(1) make_zones_in_range)
  note e = t [THEN conjunct2, THEN conjunct2, THEN conjunct2, THEN conjunct2, THEN conjunct2,
      THEN conjunct2, THEN conjunct2, THEN conjunct2, THEN spec, THEN spec, THEN spec, THEN mp, OF h]
  note l = t [THEN conjunct2, THEN conjunct2, THEN conjunct2, THEN conjunct2, THEN conjunct2,
      THEN conjunct1, THEN spec, THEN mp, OF make_zones_park(2)]
  show ?thesis
    by (intro conjI ok n [THEN conjunct1] n [THEN conjunct2, THEN conjunct1]
          n [THEN conjunct2, THEN conjunct2] make_zones_park make_zones_in_range e l)
qed

text \<open>
  Claim C4 as stated fails on the zones of \<^verbatim>\<open>_make_zones\<close>: the road is among the
  four nearest of all six other zones, so its list has six names, and the office is in
  it without being one of the road's four nearest. This is so for the exact distances
  and for every \<^verbatim>\<open>math.hypot\<close> that \<open>hypot_ok\<close> admits.
\<close>

theorem road_has_six_neighbours:
  "hypot_ok exact_hypot \<and>
   dict_get (adj (PathGraph_init exact_hypot make_zones)) ''road'' [] =
     [''home_a'', ''home_b'', ''home_c'', ''office'', ''cafe'', ''park''] \<and>
   \<not> length (dict_get (adj (PathGraph_init exact_hypot make_zones)) ''road'' []) \<le> 4 \<and>
   ''office'' \<notin> set (nearest exact_hypot (pos (PathGraph_init exact_hypot make_zones))
                      (map fst (pos (PathGraph_init exact_hypot make_zones))) ''road'') \<and>
   \<not> (\<exists>hyp. hypot_ok hyp \<and>
          length (dict_get (adj (PathGraph_init hyp make_zones)) ''road'' []) \<le> 4)"
proof -
  have g: "\<not> (\<exists>hyp. hypot_ok hyp \<and>
          length (dict_get (adj (PathGraph_init hyp make_zones)) ''road'' []) \<le> 4)"
  proof
    assume "\<exists>hyp. hypot_ok hyp \<and>
          length (dict_get (adj (PathGraph_init hyp make_zones)) ''road'' []) \<le> 4"
    then obtain hyp where h: "hypot_ok hyp"
      "length (dict_get (adj (PathGraph_init hyp make_zones)) ''road'' []) \<le> 4" by blast
    from h(2) show False by (simp add: adj_make_zones [OF h(1)] dict_get_def)
  qed
  have a: "dict_get (adj (PathGraph_init exact_hypot make_zones)) ''road'' [] =
     [''home_a'', ''home_b'', ''home_c'', ''office'', ''cafe'', ''park'']"
    by (simp add: adj_make_zones [OF exact_hypot_ok] dict_get_def)
  have b: "\<not> length (dict_get (adj (PathGraph_init exact_hypot make_zones)) ''road'' []) \<le> 4"
    unfolding a by simp
  have c: "''office'' \<notin> set (nearest exact_hypot (pos (PathGraph_init exact_hypot make_zones))
                      (map fst (pos (PathGraph_init exact_hypot make_zones))) ''road'')"
    by (simp add: nearest_make_zones [OF exact_hypot_ok])
  show ?thesis by (intro conjI exact_hypot_ok a b c g)
qed

subsection \<open>Helper lemmas about the search\<close>

lemma walk_nonempty: "walk g p \<Longrightarrow> p \<noteq> []"
  by (cases p) auto

lemma walk_snoc:
  "p \<noteq> [] \<Longrightarrow> walk g (p @ [v]) \<longleftrightarrow> walk g p \<and> v \<in> set (dict_get (adj g) (last p) [])"
  by (induction g p rule: walk.induct) auto

lemma walk_closed:
  "walk g w \<Longrightarrow> hd w \<in> S \<Longrightarrow> (\<forall>u \<in> S. set (dict_get (adj g) u []) \<subseteq> S) \<Longrightarrow> last w \<in> S"
proof (induction g w rule: walk.induct)
  case (3 g x y ys)
  then have "y \<in> S" by auto
  with 3 show ?case by simp
qed auto

lemma walk_nodes: "walk g w \<Longrightarrow> set w \<subseteq> insert (hd w) (nodes g)"
proof (induction g w rule: walk.induct)
  case (3 g x y ys)
  have "y \<in> nodes g" using "3.prems" adj_get_nodes [of g x] by auto
  with 3 show ?case by auto
qed auto

lemma set_fresh: "set (fresh seen nbs) = set nbs - seen"
  by (induction nbs arbitrary: seen) auto

lemma distinct_fresh: "distinct (fresh seen nbs)"
  by (induction nbs arbitrary: seen) (auto simp: set_fresh)

lemma visit_fresh:
  "visit p nbs (seen, q) = (seen \<union> set nbs, q @ map (\<lambda>v. p @ [v]) (fresh seen nbs))"
  by (induction nbs arbitrary: seen q) auto

lemma walk_last_step:
  assumes "walk g w" and "2 \<le> length w"
  shows "\<exists>w' x. w = w' @ [x] \<and> walk g w' \<and> hd w' = hd w \<and> x \<in> set (dict_get (adj g) (last w') [])"
proof -
  from assms(2) obtain w' x where w: "w = w' @ [x]" and ne: "w' \<noteq> []"
    by (cases w rule: rev_cases) (auto simp: Suc_le_eq)
  from assms(1) have "walk g w' \<and> x \<in> set (dict_get (adj g) (last w') [])"
    unfolding w using ne by (simp add: walk_snoc)
  moreover have "hd w' = hd w" using ne by (simp add: w)
  ultimately show ?thesis using w by blast
qed

lemma bfs_inv_step:
  assumes inv: "bfs_inv g s e (p # rest) seen" and ne: "last p \<noteq> e"
  shows "bfs_inv g s e (rest @ map (\<lambda>v. p @ [v]) (fresh seen (dict_get (adj g) (last p) [])))
           (seen \<union> set (dict_get (adj g) (last p) []))"
proof -
  let ?nbs = "dict_get (adj g) (last p) []"
  let ?news = "fresh seen ?nbs"
  let ?ext = "map (\<lambda>v. p @ [v]) ?news"
  let ?q = "rest @ ?ext"
  let ?seen = "seen \<union> set ?nbs"
  let ?n = "length p"
  have i1: "s \<in> seen" using inv by (simp add: bfs_inv_def)
  have i2: "walk g x \<and> hd x = s \<and> last x \<in> seen" if "x \<in> set (p # rest)" for x
    using inv that unfolding bfs_inv_def by blast
  have i3: "distinct (map last (p # rest))" using inv unfolding bfs_inv_def by blast
  have i4: "sorted (map length (p # rest))" using inv unfolding bfs_inv_def by blast
  have i5: "length x \<le> Suc ?n" if "x \<in> set (p # rest)" for x
    using inv that unfolding bfs_inv_def by (metis list.sel(1))
  have i6: "length x \<le> length w"
    if "x \<in> set (p # rest)" "walk g w" "hd w = s" "last w = last x" for x w
    using inv that unfolding bfs_inv_def by blast
  have i7: "?n < length w" if "walk g w" "hd w = s" "last w \<notin> seen" for w
    using inv that unfolding bfs_inv_def by (metis list.sel(1) list.distinct(1))
  have i8: "set (dict_get (adj g) y []) \<subseteq> seen" if "y \<in> seen" "y \<notin> last ` set (p # rest)" for y
    using inv that unfolding bfs_inv_def by blast
  have i9: "e \<in> last ` set (p # rest)" if "e \<in> seen"
    using inv that unfolding bfs_inv_def by blast
  have pne: "p \<noteq> []" using i2 [of p] walk_nonempty by auto
  have low: "?n \<le> length x" if "x \<in> set rest" for x using i4 that by auto
  have news: "set ?news = set ?nbs - seen" by (rule set_fresh)
  have dnews: "distinct ?news" by (rule distinct_fresh)
  have lasts_ext: "map last ?ext = ?news" by (induction ?news) (auto simp: comp_def map_idI)
  have lasts: "last ` set ?q = last ` set rest \<union> set ?news"
    by (auto simp: image_Un image_image)
  have len_ext: "length x = Suc ?n" if "x \<in> set ?ext" for x using that by auto
  have g1: "s \<in> ?seen" using i1 by simp
  have g2: "walk g x \<and> hd x = s \<and> last x \<in> ?seen" if "x \<in> set ?q" for x
  proof (cases "x \<in> set rest")
    case True
    then show ?thesis using i2 [of x] by simp
  next
    case False
    with that obtain v where v: "x = p @ [v]" "v \<in> set ?news" by auto
    then have "v \<in> set ?nbs" using news by blast
    then show ?thesis using v i2 [of p] pne by (simp add: walk_snoc)
  qed
  have g3: "distinct (map last ?q)"
  proof -
    have "set (map last rest) \<inter> set ?news = {}"
      using i2 news by auto
    moreover have "distinct (map last rest)" using i3 by simp
    ultimately show ?thesis unfolding map_append lasts_ext using dnews by simp
  qed
  have g4: "sorted (map length ?q)"
  proof -
    have a: "sorted (map length rest)" using i4 by simp
    have b: "map length ?ext = replicate (length ?news) (Suc ?n)"
      by (simp add: map_replicate_const comp_def)
    have c: "sorted (map length ?ext)" unfolding b by (simp add: sorted_replicate)
    have d: "\<forall>x \<in> set (map length rest). \<forall>y \<in> set (map length ?ext). x \<le> y"
      using i5 by auto
    show ?thesis using a c d by (simp only: map_append sorted_append)
  qed
  have g5: "length x \<le> Suc (length (hd ?q))" if "x \<in> set ?q" for x
  proof (cases rest)
    case Nil
    then have "?q = ?ext" by simp
    with that have "?ext \<noteq> []" by auto
    then have "hd ?q \<in> set ?ext" using Nil by (metis \<open>?q = ?ext\<close> hd_in_set)
    then have "length (hd ?q) = Suc ?n" by (rule len_ext)
    moreover have "length x = Suc ?n" using that Nil by auto
    ultimately show ?thesis by simp
  next
    case (Cons r rs)
    then have "hd ?q = r" by simp
    moreover have "?n \<le> length r" using low [of r] Cons by simp
    moreover have "length x \<le> Suc ?n"
    proof (cases "x \<in> set rest")
      case True then show ?thesis using i5 [of x] by simp
    next
      case False with that have "x \<in> set ?ext" by auto
      then show ?thesis using len_ext by simp
    qed
    ultimately show ?thesis by simp
  qed
  have g6: "length x \<le> length w"
    if "x \<in> set ?q" "walk g w" "hd w = s" "last w = last x" for x w
  proof (cases "x \<in> set rest")
    case True
    then show ?thesis using i6 [of x w] that by simp
  next
    case False
    with that(1) obtain v where v: "x = p @ [v]" "v \<in> set ?news" by auto
    then have "last w \<notin> seen" using that(4) news by auto
    then have "?n < length w" using i7 that by blast
    then show ?thesis using v by simp
  qed
  have g8: "set (dict_get (adj g) y []) \<subseteq> ?seen" if "y \<in> ?seen" "y \<notin> last ` set ?q" for y
  proof -
    have nn: "y \<notin> set ?news" and nr: "y \<notin> last ` set rest" using that(2) lasts by auto
    have ys: "y \<in> seen"
    proof (rule ccontr)
      assume "y \<notin> seen"
      with that(1) have "y \<in> set ?nbs - seen" by auto
      with nn news show False by blast
    qed
    show ?thesis
    proof (cases "y = last p")
      case True then show ?thesis by auto
    next
      case False
      with nr have "y \<notin> last ` set (p # rest)" by auto
      from i8 [OF ys this] show ?thesis by auto
    qed
  qed
  have g7: "length (hd ?q) < length w"
    if qne: "?q \<noteq> []" and w: "walk g w" "hd w = s" "last w \<notin> ?seen" for w
  proof -
    have ws: "last w \<notin> seen" using w(3) by simp
    have big: "?n < length w" using i7 w(1,2) ws by blast
    have hdq: "hd ?q \<in> set ?q" using qne by (rule hd_in_set)
    show ?thesis
    proof (cases "length (hd ?q) \<le> ?n")
      case True
      with big show ?thesis by simp
    next
      case False
      have all_big: "Suc ?n \<le> length x" if "x \<in> set ?q" for x
      proof -
        have "sorted (map length ?q)" by (rule g4)
        then have "length (hd ?q) \<le> length x"
          using that qne by (cases ?q) auto
        with False show ?thesis by simp
      qed
      have hq: "length (hd ?q) \<le> Suc ?n"
      proof (cases "hd ?q \<in> set rest")
        case True then show ?thesis using i5 [of "hd ?q"] by simp
      next
        case False with hdq have "hd ?q \<in> set ?ext" by auto
        then show ?thesis using len_ext by simp
      qed
      have "length w \<noteq> Suc ?n"
      proof
        assume lw: "length w = Suc ?n"
        have "2 \<le> length w" using lw pne by (cases p) auto
        from walk_last_step [OF w(1) this] obtain w' x where
          w': "w = w' @ [x]" "walk g w'" "hd w' = hd w" "x \<in> set (dict_get (adj g) (last w') [])"
          by blast
        have lw': "length w' = ?n" using lw w'(1) by simp
        have xl: "x \<notin> ?seen" using w(3) w'(1) by simp
        let ?y = "last w'"
        have ys: "?y \<in> seen"
        proof (rule ccontr)
          assume "?y \<notin> seen"
          then have "?n < length w'" using i7 w'(2,3) w(2) by simp
          with lw' show False by simp
        qed
        have seen_sub: "seen \<subseteq> ?seen" by auto
        show False
        proof (cases "?y \<in> last ` set ?q")
          case False
          have "?y \<in> ?seen" using ys by simp
          from g8 [OF this False] w'(4) xl show False by blast
        next
          case True
          then obtain r where r1: "?y = last r" and r0: "r \<in> set ?q" by (rule imageE)
          have r: "r \<in> set ?q" "last r = ?y" using r0 r1 by simp_all
          have "r \<in> set rest"
          proof (rule ccontr)
            assume "r \<notin> set rest"
            with r(1) obtain v where "r = p @ [v]" "v \<in> set ?news" by auto
            then have "last r \<notin> seen" using news by auto
            with r(2) ys show False by simp
          qed
          then have "length r \<le> length w'"
            using i6 [of r w'] w'(2,3) w(2) r(2) by simp
          moreover have "Suc ?n \<le> length r" using all_big r(1) by simp
          ultimately show False using lw' by simp
        qed
      qed
      with big hq show ?thesis by simp
    qed
  qed
  have g9: "e \<in> last ` set ?q" if "e \<in> ?seen"
  proof (cases "e \<in> seen")
    case True
    from i9 [OF this] ne have "e \<in> last ` set rest" by auto
    then show ?thesis using lasts by simp
  next
    case False
    with that have "e \<in> set ?news" using news by auto
    then show ?thesis using lasts by simp
  qed
  show ?thesis
    unfolding bfs_inv_def
    using g1 g2 g3 g4 g5 g6 g7 g8 g9 by blast
qed

lemma bfs_inv_init: "s \<noteq> e \<Longrightarrow> bfs_inv g s e [[s]] {s}"
proof -
  assume ne: "s \<noteq> e"
  have a: "1 < length w" if "walk g w" "hd w = s" "last w \<noteq> s" for w
  proof (cases w)
    case Nil
    with that show ?thesis by simp
  next
    case (Cons x xs)
    with that show ?thesis by (cases xs) auto
  qed
  have b: "1 \<le> length w" if "walk g w" for w
    using walk_nonempty [OF that] by (cases w) auto
  show ?thesis unfolding bfs_inv_def using ne a b by auto
qed

lemma bfs_correct:
  "bfs_inv g s e q seen \<Longrightarrow>
   (case bfs g e q seen of
      Inl x \<Rightarrow> False
    | Inr None \<Rightarrow> \<not> connected g s e
    | Inr (Some p) \<Rightarrow> walk g p \<and> hd p = s \<and> last p = e \<and>
        (\<forall>w. walk g w \<and> hd w = s \<and> last w = e \<longrightarrow> length p \<le> length w))"
proof (induction g e q seen rule: bfs.induct)
  case (1 g e seen)
  have s: "s \<in> seen" and cl: "\<forall>u \<in> seen. set (dict_get (adj g) u []) \<subseteq> seen"
    and ee: "e \<notin> seen"
    using "1.prems" unfolding bfs_inv_def by auto
  have "\<not> connected g s e"
  proof
    assume "connected g s e"
    then obtain w where w: "walk g w" "hd w = s" "last w = e" unfolding connected_def by blast
    from walk_closed [OF w(1) _ cl] w(2,3) s have "e \<in> seen" by simp
    with ee show False by simp
  qed
  then show ?case by simp
next
  case (2 g e p rest seen)
  have i2: "walk g p \<and> hd p = s"
    using "2.prems" unfolding bfs_inv_def by auto
  then have pne: "p \<noteq> []" using walk_nonempty by auto
  show ?case
  proof (cases "last p = e")
    case True
    have "\<forall>w. walk g w \<and> hd w = s \<and> last w = e \<longrightarrow> length p \<le> length w"
      using "2.prems" True unfolding bfs_inv_def by auto
    with i2 True pne show ?thesis by simp
  next
    case False
    let ?nbs = "dict_get (adj g) (last p) []"
    have inv': "bfs_inv g s e (snd (visit p ?nbs (seen, rest))) (fst (visit p ?nbs (seen, rest)))"
      using bfs_inv_step [OF "2.prems" False] by (simp add: visit_fresh)
    from "2.IH" [OF pne False inv'] pne False show ?thesis by simp
  qed
qed

lemma pos_at_key: "n \<in> fst ` set (pos g) \<Longrightarrow> pos_at g n = Inr (pos_of (pos g) n)"
proof -
  assume "n \<in> fst ` set (pos g)"
  then obtain v where "map_of (pos g) n = Some v"
    by (metis map_of_eq_None_iff not_Some_eq)
  then show ?thesis by (simp add: pos_at_def pos_of_def dict_get_def)
qed

lemma centers_keys:
  "set p \<subseteq> fst ` set (pos g) \<Longrightarrow> centers g p = Inr (map (pos_of (pos g)) p)"
  by (induction p) (simp_all add: pos_at_key)

lemma init_tables_other:
  "n \<notin> name ` set zs \<Longrightarrow> map_of (pos (init_tables zs g)) n = map_of (pos g) n"
  by (induction zs arbitrary: g) (auto simp: update_conv')

lemma init_tables_center:
  "distinct (map name zs) \<Longrightarrow> z \<in> set zs \<Longrightarrow>
   map_of (pos (init_tables zs g)) (name z) = Some (center z)"
proof (induction zs arbitrary: g)
  case Nil
  then show ?case by simp
next
  case (Cons y zs)
  show ?case
  proof (cases "z \<in> set zs")
    case True
    with Cons show ?thesis by simp
  next
    case False
    with Cons.prems have zy: "z = y" and "name y \<notin> name ` set zs" by auto
    then show ?thesis by (simp add: init_tables_other update_conv')
  qed
qed

lemma pos_of_center:
  "distinct (map name zs) \<Longrightarrow> z \<in> set zs \<Longrightarrow> pos_of (pos (PathGraph_init hyp zs)) (name z) = center z"
  by (simp add: PathGraph_init_def Let_def pos_of_def dict_get_def init_tables_center)

lemma graph_keys: "fst ` set (pos (PathGraph_init hyp zs)) = name ` set zs"
proof -
  have "map fst (pos (init_tables zs \<lparr>pos = [], adj = []\<rparr>)) = map fst (adj (init_tables zs \<lparr>pos = [], adj = []\<rparr>)) \<and>
      set (map fst (pos (init_tables zs \<lparr>pos = [], adj = []\<rparr>))) = set (map fst (pos \<lparr>pos = [], adj = []\<rparr>)) \<union> name ` set zs"
    by (rule init_tables_keys) simp
  then have "set (map fst (pos (init_tables zs \<lparr>pos = [], adj = []\<rparr>))) = set (map fst (pos \<lparr>pos = [], adj = []\<rparr>)) \<union> name ` set zs"
    by blast
  then show ?thesis by (simp add: PathGraph_init_def Let_def)
qed

lemma graph_neighbours: "set (dict_get (adj (PathGraph_init hyp zs)) a []) \<subseteq> name ` set zs"
proof -
  let ?g0 = "init_tables zs \<lparr>pos = [], adj = []\<rparr>"
  let ?P = "pos ?g0"
  let ?N = "map fst ?P"
  have A: "adj (PathGraph_init hyp zs) = build_adj hyp ?P ?N ?N (adj ?g0)"
    by (simp add: PathGraph_init_def Let_def)
  have e0: "dict_get (adj ?g0) x [] = []" for x
    by (rule init_tables_empty) (simp add: dict_get_def)
  have N: "set ?N = name ` set zs" using graph_keys [of hyp zs] by (simp add: PathGraph_init_def Let_def)
  have "set (dict_get (adj (PathGraph_init hyp zs)) a []) \<subseteq> set ?N"
    unfolding A build_adj_members using nearest_subset [of hyp ?P ?N] by (auto simp: e0)
  then show ?thesis unfolding N .
qed

lemma graph_nodes: "nodes (PathGraph_init hyp zs) \<subseteq> name ` set zs"
proof
  fix v assume "v \<in> nodes (PathGraph_init hyp zs)"
  then obtain n l where nl: "(n, l) \<in> set (adj (PathGraph_init hyp zs))" "v \<in> set l"
    by (auto simp: nodes_def)
  let ?g0 = "init_tables zs \<lparr>pos = [], adj = []\<rparr>"
  have k: "map fst (adj (PathGraph_init hyp zs)) = map fst (pos ?g0)"
  proof -
    have k0: "map fst (pos ?g0) = map fst (adj ?g0)"
      using init_tables_keys [of "\<lparr>pos = [], adj = []\<rparr>" zs] by simp
    show ?thesis
      by (simp add: PathGraph_init_def Let_def) (subst build_adj_keys, auto simp: k0)
  qed
  have "distinct (map fst (adj (PathGraph_init hyp zs)))"
    unfolding k by (rule init_tables_distinct) simp
  then have "map_of (adj (PathGraph_init hyp zs)) n = Some l" using nl(1) by simp
  then have "dict_get (adj (PathGraph_init hyp zs)) n [] = l" by (simp add: dict_get_def)
  with nl(2) graph_neighbours [of hyp zs n] show "v \<in> name ` set zs" by auto
qed

lemma tables_two_islands:
  "pos (init_tables two_islands \<lparr>pos = [], adj = []\<rparr>) =
     [(''a0'', (1, 1)), (''a1'', (11, 1)), (''a2'', (41, 1)), (''a3'', (91, 1)), (''a4'', (161, 1)),
      (''b0'', (1001, 1)), (''b1'', (1011, 1)), (''b2'', (1041, 1)), (''b3'', (1091, 1)),
      (''b4'', (1161, 1))]"
  "adj (init_tables two_islands \<lparr>pos = [], adj = []\<rparr>) =
     [(''a0'', []), (''a1'', []), (''a2'', []), (''a3'', []), (''a4'', []),
      (''b0'', []), (''b1'', []), (''b2'', []), (''b3'', []), (''b4'', [])]"
  by (simp_all add: two_islands_def center_def)

lemma pos_two_islands:
  "pos (PathGraph_init hyp two_islands) =
     [(''a0'', (1, 1)), (''a1'', (11, 1)), (''a2'', (41, 1)), (''a3'', (91, 1)), (''a4'', (161, 1)),
      (''b0'', (1001, 1)), (''b1'', (1011, 1)), (''b2'', (1041, 1)), (''b3'', (1091, 1)),
      (''b4'', (1161, 1))]"
  by (simp add: PathGraph_init_def Let_def tables_two_islands)

lemma nearest_two_islands:
  assumes "hypot_ok hyp"
  shows
  "nearest hyp (pos (PathGraph_init hyp two_islands)) (map fst (pos (PathGraph_init hyp two_islands))) ''a0''
     = [''a1'', ''a2'', ''a3'', ''a4'']"
  "nearest hyp (pos (PathGraph_init hyp two_islands)) (map fst (pos (PathGraph_init hyp two_islands))) ''a1''
     = [''a0'', ''a2'', ''a3'', ''a4'']"
  "nearest hyp (pos (PathGraph_init hyp two_islands)) (map fst (pos (PathGraph_init hyp two_islands))) ''a2''
     = [''a1'', ''a0'', ''a3'', ''a4'']"
  "nearest hyp (pos (PathGraph_init hyp two_islands)) (map fst (pos (PathGraph_init hyp two_islands))) ''a3''
     = [''a2'', ''a4'', ''a1'', ''a0'']"
  "nearest hyp (pos (PathGraph_init hyp two_islands)) (map fst (pos (PathGraph_init hyp two_islands))) ''a4''
     = [''a3'', ''a2'', ''a1'', ''a0'']"
  "nearest hyp (pos (PathGraph_init hyp two_islands)) (map fst (pos (PathGraph_init hyp two_islands))) ''b0''
     = [''b1'', ''b2'', ''b3'', ''b4'']"
  "nearest hyp (pos (PathGraph_init hyp two_islands)) (map fst (pos (PathGraph_init hyp two_islands))) ''b1''
     = [''b0'', ''b2'', ''b3'', ''b4'']"
  "nearest hyp (pos (PathGraph_init hyp two_islands)) (map fst (pos (PathGraph_init hyp two_islands))) ''b2''
     = [''b1'', ''b0'', ''b3'', ''b4'']"
  "nearest hyp (pos (PathGraph_init hyp two_islands)) (map fst (pos (PathGraph_init hyp two_islands))) ''b3''
     = [''b2'', ''b4'', ''b1'', ''b0'']"
  "nearest hyp (pos (PathGraph_init hyp two_islands)) (map fst (pos (PathGraph_init hyp two_islands))) ''b4''
     = [''b3'', ''b2'', ''b1'', ''b0'']"
  unfolding pos_two_islands
  by (simp_all add: nearest_def dists_def center_dist_def pos_of_def dict_get_def
        hypot_ok_sign [OF assms] hypot_ok_cmp [OF assms] coord_bound_def)

lemma adj_two_islands:
  assumes "hypot_ok hyp"
  shows "adj (PathGraph_init hyp two_islands) =
     [(''a0'', [''a1'', ''a2'', ''a3'', ''a4'']), (''a1'', [''a0'', ''a2'', ''a3'', ''a4'']),
      (''a2'', [''a0'', ''a1'', ''a3'', ''a4'']), (''a3'', [''a0'', ''a1'', ''a2'', ''a4'']),
      (''a4'', [''a0'', ''a1'', ''a2'', ''a3'']),
      (''b0'', [''b1'', ''b2'', ''b3'', ''b4'']), (''b1'', [''b0'', ''b2'', ''b3'', ''b4'']),
      (''b2'', [''b0'', ''b1'', ''b3'', ''b4'']), (''b3'', [''b0'', ''b1'', ''b2'', ''b4'']),
      (''b4'', [''b0'', ''b1'', ''b2'', ''b3''])]"
  (is "_ = ?rhs")
proof -
  have "adj (PathGraph_init hyp two_islands) =
      build_adj hyp (pos (PathGraph_init hyp two_islands)) (map fst (pos (PathGraph_init hyp two_islands)))
        (map fst (pos (PathGraph_init hyp two_islands)))
        (adj (init_tables two_islands \<lparr>pos = [], adj = []\<rparr>))"
    by (simp add: PathGraph_init_def Let_def)
  also have "\<dots> = ?rhs"
    unfolding tables_two_islands
    apply (subst (3) pos_two_islands)
    apply (simp add: nearest_two_islands [OF assms] link_def dict_get_def)
    done
  finally show ?thesis .
qed

lemma islands_apart:
  assumes "hypot_ok hyp"
  shows "\<not> connected (PathGraph_init hyp two_islands) ''a0'' ''b0''"
proof
  assume "connected (PathGraph_init hyp two_islands) ''a0'' ''b0''"
  then obtain w where w: "walk (PathGraph_init hyp two_islands) w" "hd w = ''a0''" "last w = ''b0''"
    unfolding connected_def by blast
  let ?S = "{''a0'', ''a1'', ''a2'', ''a3'', ''a4''}"
  have cl: "\<forall>u \<in> ?S. set (dict_get (adj (PathGraph_init hyp two_islands)) u []) \<subseteq> ?S"
    by (auto simp: adj_two_islands [OF assms] dict_get_def)
  have "hd w \<in> ?S" using w(2) by simp
  from walk_closed [OF w(1) this cl] w(3) show False by simp
qed

lemma make_zones_names: "distinct (map name make_zones)"
  "make_zones ! 0 \<in> set make_zones" "make_zones ! 3 \<in> set make_zones"
  "name (make_zones ! 0) = ''home_a''" "name (make_zones ! 3) = ''office''"
  "center (make_zones ! 0) = (115, 135)" "center (make_zones ! 3) = (800, 230)"
  by (simp_all add: make_zones_def center_def)

lemma two_islands_names: "distinct (map name two_islands)"
  "two_islands ! 0 \<in> set two_islands" "two_islands ! 5 \<in> set two_islands"
  "name (two_islands ! 0) = ''a0''" "name (two_islands ! 5) = ''b0''"
  "center (two_islands ! 0) = (1, 1)" "center (two_islands ! 5) = (1001, 1)"
  by (simp_all add: two_islands_def center_def)

lemma home_to_office:
  "hypot_ok hyp \<Longrightarrow> walk (PathGraph_init hyp make_zones) [''home_a'', ''office'']"
  by (simp add: adj_make_zones dict_get_def)

subsection \<open>C3: \<^verbatim>\<open>find\<close>\<close>

text \<open>
  Claim C3. Take the graph built from zones with distinct names, whatever distances
  \<^verbatim>\<open>math.hypot\<close> returned while it was built, and two of the zones.
  \<^verbatim>\<open>find\<close> from a zone to itself returns the one-point path of its center. For two
  zones with different names that a walk of the adjacency structure connects, it returns
  the centers along a walk from the first to the second that no other such walk
  undercuts in length; the result is non-empty, starts at the center of the first zone
  and ends at the center of the second. When no walk connects them, it returns the two
  centers, first and second, and raises nothing.
\<close>

theorem find_returns_shortest_path:
  assumes "distinct (map name zs)" and "za \<in> set zs" and "zb \<in> set zs"
  shows
    "find (PathGraph_init hyp zs) (name za) (name za) = Inr [center za] \<and>
     (name za \<noteq> name zb \<and> connected (PathGraph_init hyp zs) (name za) (name zb) \<longrightarrow>
        (\<exists>p. walk (PathGraph_init hyp zs) p \<and> hd p = name za \<and> last p = name zb \<and>
             (\<forall>w. walk (PathGraph_init hyp zs) w \<and> hd w = name za \<and> last w = name zb
                   \<longrightarrow> length p \<le> length w) \<and>
             find (PathGraph_init hyp zs) (name za) (name zb)
               = Inr (map (pos_of (pos (PathGraph_init hyp zs))) p) \<and>
             map (pos_of (pos (PathGraph_init hyp zs))) p \<noteq> [] \<and>
             hd (map (pos_of (pos (PathGraph_init hyp zs))) p) = center za \<and>
             last (map (pos_of (pos (PathGraph_init hyp zs))) p) = center zb)) \<and>
     (name za \<noteq> name zb \<and> \<not> connected (PathGraph_init hyp zs) (name za) (name zb) \<longrightarrow>
        find (PathGraph_init hyp zs) (name za) (name zb) = Inr [center za, center zb])"
proof -
  let ?G = "PathGraph_init hyp zs"
  let ?a = "name za" and ?b = "name zb"
  let ?c = "pos_of (pos ?G)"
  have ka: "?a \<in> fst ` set (pos ?G)" and kb: "?b \<in> fst ` set (pos ?G)"
    using assms(2,3) by (simp_all add: graph_keys)
  have pa: "pos_at ?G ?a = Inr (center za)" and pb: "pos_at ?G ?b = Inr (center zb)"
    using pos_at_key [OF ka] pos_at_key [OF kb] pos_of_center [OF assms(1)] assms(2,3)
    by simp_all
  have same: "find ?G ?a ?a = Inr [center za]" by (simp add: find_def pa)
  have diff: "(connected ?G ?a ?b \<longrightarrow>
        (\<exists>p. walk ?G p \<and> hd p = ?a \<and> last p = ?b \<and>
             (\<forall>w. walk ?G w \<and> hd w = ?a \<and> last w = ?b \<longrightarrow> length p \<le> length w) \<and>
             find ?G ?a ?b = Inr (map ?c p) \<and> map ?c p \<noteq> [] \<and>
             hd (map ?c p) = center za \<and> last (map ?c p) = center zb)) \<and>
     (\<not> connected ?G ?a ?b \<longrightarrow> find ?G ?a ?b = Inr [center za, center zb])"
    if ne: "?a \<noteq> ?b"
  proof -
    note r = bfs_correct [OF bfs_inv_init [OF ne], of ?G]
    show ?thesis
    proof (cases "bfs ?G ?b [[?a]] {?a}")
      case (Inl x)
      with r show ?thesis by simp
    next
      case (Inr res)
      show ?thesis
      proof (cases res)
        case None
        with r Inr have "\<not> connected ?G ?a ?b" by simp
        moreover have "find ?G ?a ?b = Inr [center za, center zb]"
          using ne Inr None by (simp add: find_def pa pb)
        ultimately show ?thesis by simp
      next
        case (Some p)
        with r Inr have p: "walk ?G p" "hd p = ?a" "last p = ?b"
          "\<forall>w. walk ?G w \<and> hd w = ?a \<and> last w = ?b \<longrightarrow> length p \<le> length w"
          by simp_all
        have pne: "p \<noteq> []" using p(1) by (rule walk_nonempty)
        have "set p \<subseteq> insert ?a (nodes ?G)" using walk_nodes [OF p(1)] p(2) by simp
        also have "\<dots> \<subseteq> fst ` set (pos ?G)"
          using graph_nodes [of hyp zs] assms(2) by (auto simp: graph_keys)
        finally have c: "centers ?G p = Inr (map ?c p)" by (rule centers_keys)
        have f: "find ?G ?a ?b = Inr (map ?c p)"
          using ne Inr Some by (simp add: find_def c)
        have h: "hd (map ?c p) = center za"
          using pne p(2) pos_of_center [OF assms(1,2)] by (simp add: hd_map)
        have l: "last (map ?c p) = center zb"
          using pne p(3) pos_of_center [OF assms(1,3)] by (simp add: last_map)
        have conn: "connected ?G ?a ?b" unfolding connected_def using p by blast
        from p f h l pne conn show ?thesis by auto
      qed
    qed
  qed
  from same diff show ?thesis by blast
qed

theorem find_returns_shortest_path_witness:
  "distinct (map name make_zones) \<and>
   find (PathGraph_init exact_hypot make_zones) ''home_a'' ''home_a'' = Inr [(115, 135)] \<and>
   connected (PathGraph_init exact_hypot make_zones) ''home_a'' ''office'' \<and>
   find (PathGraph_init exact_hypot make_zones) ''home_a'' ''office'' = Inr [(115, 135), (800, 230)] \<and>
   distinct (map name two_islands) \<and>
   \<not> connected (PathGraph_init exact_hypot two_islands) ''a0'' ''b0'' \<and>
   find (PathGraph_init exact_hypot two_islands) ''a0'' ''b0'' = Inr [(1, 1), (1001, 1)]"
proof -
  let ?G = "PathGraph_init exact_hypot make_zones"
  note ok = exact_hypot_ok
  note t = find_returns_shortest_path [OF make_zones_names(1-3), of exact_hypot,
      unfolded make_zones_names(4-7)]
  have conn: "connected ?G ''home_a'' ''office''"
    unfolding connected_def using home_to_office [OF ok]
    by (intro exI [of _ "[''home_a'', ''office'']"]) simp
  from t conn obtain p where p: "walk ?G p" "hd p = ''home_a''" "last p = ''office''"
    "\<forall>w. walk ?G w \<and> hd w = ''home_a'' \<and> last w = ''office'' \<longrightarrow> length p \<le> length w"
    "find ?G ''home_a'' ''office'' = Inr (map (pos_of (pos ?G)) p)"
    "hd (map (pos_of (pos ?G)) p) = (115, 135)" "last (map (pos_of (pos ?G)) p) = (800, 230)"
    by auto
  have "walk ?G [''home_a'', ''office''] \<and> hd [''home_a'', ''office''] = ''home_a'' \<and>
      last [''home_a'', ''office''] = ''office''"
    using home_to_office [OF ok] by simp
  with p(4) have "length p \<le> length [''home_a'', ''office'']" by blast
  then have "length p \<le> 2" by simp
  moreover have "length p \<noteq> 1" using p(2,3) by (cases p) auto
  moreover have "p \<noteq> []" using p(1) by (rule walk_nonempty)
  then have "length p \<noteq> 0" by simp
  ultimately have "length p = 2" by linarith
  then obtain x y where "p = [x, y]" by (cases p; cases "tl p") auto
  with p(5,6,7) have f: "find ?G ''home_a'' ''office'' = Inr [(115, 135), (800, 230)]" by simp
  note u = find_returns_shortest_path [OF two_islands_names(1-3), of exact_hypot,
      unfolded two_islands_names(4-7)]
  from u islands_apart [OF ok]
  have g: "find (PathGraph_init exact_hypot two_islands) ''a0'' ''b0'' = Inr [(1, 1), (1001, 1)]" by simp
  from t conn f g islands_apart [OF ok] make_zones_names(1) two_islands_names(1) show ?thesis by simp
qed

subsection \<open>Helper lemmas about parsing a response\<close>

lemma is_space_code: "is_space c \<longleftrightarrow> (of_char c :: nat) \<in> {9, 10, 11, 12, 13, 28, 29, 30, 31, 32}"
proof -
  have "(of_char c :: nat) = of_char d \<longleftrightarrow> c = d" for d by (rule of_char_eq_iff)
  note e = this [symmetric]
  show ?thesis unfolding is_space_def insert_iff empty_iff e [of "CHR 0x09"] e [of "CHR 0x0A"]
    e [of "CHR 0x0B"] e [of "CHR 0x0C"] e [of "CHR 0x0D"] e [of "CHR 0x1C"] e [of "CHR 0x1D"]
    e [of "CHR 0x1E"] e [of "CHR 0x1F"] e [of "CHR 0x20"]
    by simp
qed

lemma strip_spaces:
  assumes "\<forall>c \<in> set ws1. is_space c" and "\<forall>c \<in> set ws2. is_space c"
    and "core = [] \<or> (\<not> is_space (hd core) \<and> \<not> is_space (last core))"
  shows "ascii_strip (ws1 @ core @ ws2) = core"
proof (cases "core = []")
  case True
  have d: "dropWhile is_space (ws1 @ ws2) = []"
    using assms(1,2) by (simp add: dropWhile_eq_Nil_conv)
  have "ascii_strip (ws1 @ ws2) = []" unfolding ascii_strip_def d by simp
  then show ?thesis using True by simp
next
  case False
  with assms(3) have h: "\<not> is_space (hd core)" and l: "\<not> is_space (last core)" by simp_all
  have a: "dropWhile is_space (ws1 @ core @ ws2) = core @ ws2"
  proof -
    have "dropWhile is_space (ws1 @ core @ ws2) = dropWhile is_space (core @ ws2)"
      using assms(1) by (simp add: dropWhile_append2)
    also have "\<dots> = core @ ws2" using False h by (cases core) simp_all
    finally show ?thesis .
  qed
  have b: "dropWhile is_space (rev (core @ ws2)) = rev core"
  proof -
    have "dropWhile is_space (rev ws2 @ rev core) = dropWhile is_space (rev core)"
      by (rule dropWhile_append2) (use assms(2) in simp)
    also have "\<dots> = rev core"
    proof (cases "rev core")
      case Nil
      then show ?thesis by simp
    next
      case (Cons x xs)
      have "hd (rev core) = last core" using False by (simp add: hd_rev)
      with Cons l have "\<not> is_space x" by simp
      with Cons show ?thesis by simp
    qed
    finally show ?thesis by simp
  qed
  show ?thesis unfolding ascii_strip_def a b by simp
qed

lemma lower_char_letters:
  "map lower_char ''ABCDEFGHIJKLMNOPQRSTUVWXYZ'' = ''abcdefghijklmnopqrstuvwxyz''"
  by (simp add: lower_char_def dict_get_def)

lemma lower_char_other: "c \<notin> set ''ABCDEFGHIJKLMNOPQRSTUVWXYZ'' \<Longrightarrow> lower_char c = c"
  by (simp add: lower_char_def dict_get_def)

lemma ascii_strip_ascii: "ascii s \<Longrightarrow> ascii (ascii_strip s)"
  unfolding ascii_def ascii_strip_def
  by (metis set_dropWhileD set_rev)

lemma raw_goal_ascii:
  assumes "text_ok lib" and "ascii (py_str (dict_get kv ''goal'' (VStr [])))"
  shows "raw_goal lib kv = ascii_lower (ascii_strip (py_str (dict_get kv ''goal'' (VStr []))))"
proof -
  let ?s = "py_str (dict_get kv ''goal'' (VStr []))"
  have a: "str_strip lib ?s = ascii_strip ?s"
    using assms unfolding text_ok_def by simp
  have b: "str_lower lib (ascii_strip ?s) = ascii_lower (ascii_strip ?s)"
    using assms(1) ascii_strip_ascii [OF assms(2)] unfolding text_ok_def by simp
  show ?thesis unfolding raw_goal_def a b ..
qed

lemma text_ok_sample: "text_ok sample_lib"
  by (simp add: text_ok_def sample_lib_def)

lemma key_present: "map_of al k = Some v \<Longrightarrow> k \<in> set (map fst al)"
  by (metis domI dom_map_of_conv_image_fst set_map)

lemma key_in_image: "map_of al k = Some v \<Longrightarrow> k \<in> fst ` set al"
  by (metis fst_conv image_eqI map_of_SomeD)

lemma apply_entry_shape:
  "fst (apply_entry lib w e) = w \<or>
   (\<exists>a a'. map_of (agents w) (fst e) = Some a \<and>
      fst (apply_entry lib w e) = w\<lparr>agents := AList.update (fst e) a' (agents w)\<rparr>)"
  by (auto simp: apply_entry_def Let_def split: option.splits jentry.splits)

lemma apply_entry_frame:
  "world_zones (fst (apply_entry lib w e)) = world_zones w"
  "world_graph (fst (apply_entry lib w e)) = world_graph w"
  "tick_count (fst (apply_entry lib w e)) = tick_count w"
  "map fst (agents (fst (apply_entry lib w e))) = map fst (agents w)"
  "k \<noteq> fst e \<Longrightarrow> map_of (agents (fst (apply_entry lib w e))) k = map_of (agents w) k"
  using apply_entry_shape [of lib w e] by (auto simp: update_keys update_conv' key_in_image)

lemma apply_entry_cong:
  assumes "map_of (agents w) (fst e) = map_of (agents w') (fst e)"
    and "world_zones w = world_zones w'"
  shows "map_of (agents (fst (apply_entry lib w e))) (fst e)
           = map_of (agents (fst (apply_entry lib w' e))) (fst e)"
    and "snd (apply_entry lib w e) = snd (apply_entry lib w' e)"
  using assms
  by (auto simp: apply_entry_def zone_by_type_def Let_def update_conv'
      split: option.splits jentry.splits)

lemma apply_entries_Cons:
  "apply_entries lib w (e # es) =
     (if snd (apply_entry lib w e) = None then apply_entries lib (fst (apply_entry lib w e)) es
      else apply_entry lib w e)"
  by (cases "apply_entry lib w e") (auto split: option.splits)

lemma apply_entries_append:
  "apply_entries lib w (es1 @ es2) =
     (if snd (apply_entries lib w es1) = None
      then apply_entries lib (fst (apply_entries lib w es1)) es2
      else apply_entries lib w es1)"
proof (induction es1 arbitrary: w)
  case Nil
  show ?case by simp
next
  case (Cons e es1)
  show ?case
  proof (cases "snd (apply_entry lib w e) = None")
    case True
    then show ?thesis
      unfolding append_Cons apply_entries_Cons [of lib w e] Cons.IH by simp
  next
    case False
    then show ?thesis
      unfolding append_Cons apply_entries_Cons [of lib w e] by (simp only: if_False)
  qed
qed

lemma apply_entries_frame:
  "world_zones (fst (apply_entries lib w es)) = world_zones w \<and>
   world_graph (fst (apply_entries lib w es)) = world_graph w \<and>
   tick_count (fst (apply_entries lib w es)) = tick_count w \<and>
   map fst (agents (fst (apply_entries lib w es))) = map fst (agents w) \<and>
   (\<forall>k. k \<notin> fst ` set es \<longrightarrow> map_of (agents (fst (apply_entries lib w es))) k = map_of (agents w) k)"
proof (induction es arbitrary: w)
  case Nil
  show ?case by simp
next
  case (Cons e es)
  show ?case
  proof (cases "snd (apply_entry lib w e) = None")
    case True
    then have r: "apply_entries lib w (e # es) = apply_entries lib (fst (apply_entry lib w e)) es"
      by (simp add: apply_entries_Cons del: apply_entries.simps)
    show ?thesis unfolding r using Cons.IH [of "fst (apply_entry lib w e)"]
      by (simp add: apply_entry_frame)
  next
    case False
    then have r: "apply_entries lib w (e # es) = apply_entry lib w e"
      unfolding apply_entries_Cons by (simp only: if_False)
    show ?thesis unfolding r by (simp add: apply_entry_frame)
  qed
qed

lemma apply_entries_raises:
  assumes "distinct (map fst es)"
  shows "snd (apply_entries lib w es) = None \<longleftrightarrow> (\<forall>e \<in> set es. snd (apply_entry lib w e) = None)"
  using assms
proof (induction es arbitrary: w)
  case Nil
  show ?case by simp
next
  case (Cons e es)
  let ?w1 = "fst (apply_entry lib w e)"
  have d: "distinct (map fst es)" and n: "fst e \<notin> fst ` set es" using Cons.prems by auto
  have same: "snd (apply_entry lib ?w1 e') = snd (apply_entry lib w e')" if "e' \<in> set es" for e'
  proof -
    have "fst e' \<noteq> fst e" using that n by (metis imageI)
    then show ?thesis
      by (intro apply_entry_cong) (simp_all add: apply_entry_frame)
  qed
  show ?case
  proof (cases "snd (apply_entry lib w e) = None")
    case True
    then have r: "apply_entries lib w (e # es) = apply_entries lib ?w1 es"
      by (simp add: apply_entries_Cons del: apply_entries.simps)
    show ?thesis unfolding r Cons.IH [OF d] using True same by simp
  next
    case False
    then have r: "apply_entries lib w (e # es) = apply_entry lib w e"
      unfolding apply_entries_Cons by (simp only: if_False)
    show ?thesis unfolding r using False by (metis list.set_intros(1))
  qed
qed

lemma apply_entries_each:
  assumes "distinct (map fst es)" and "snd (apply_entries lib w es) = None" and "e \<in> set es"
  shows "map_of (agents (fst (apply_entries lib w es))) (fst e)
           = map_of (agents (fst (apply_entry lib w e))) (fst e)"
  using assms
proof (induction es arbitrary: w)
  case Nil
  then show ?case by simp
next
  case (Cons x es)
  let ?w1 = "fst (apply_entry lib w x)"
  have d: "distinct (map fst es)" and n: "fst x \<notin> fst ` set es" using Cons.prems(1) by auto
  have ok: "snd (apply_entry lib w x) = None"
    using Cons.prems(2) by (simp add: apply_entries_Cons del: apply_entries.simps split: if_splits)
  then have r: "apply_entries lib w (x # es) = apply_entries lib ?w1 es"
    by (simp add: apply_entries_Cons del: apply_entries.simps)
  show ?case
  proof (cases "e = x")
    case True
    have "map_of (agents (fst (apply_entries lib ?w1 es))) (fst x) = map_of (agents ?w1) (fst x)"
      using apply_entries_frame [of lib ?w1 es] n by blast
    then show ?thesis unfolding r True .
  next
    case False
    with Cons.prems(3) have m: "e \<in> set es" by simp
    then have ne: "fst e \<noteq> fst x" using n by (metis imageI)
    have "map_of (agents (fst (apply_entries lib ?w1 es))) (fst e)
        = map_of (agents (fst (apply_entry lib ?w1 e))) (fst e)"
      by (rule Cons.IH [OF d Cons.prems(2) [unfolded r] m])
    also have "\<dots> = map_of (agents (fst (apply_entry lib w e))) (fst e)"
      using ne by (intro apply_entry_cong) (simp_all add: apply_entry_frame)
    finally show ?thesis unfolding r .
  qed
qed

lemma brace_span_found:
  assumes "CHR ''{'' \<notin> set pre" and "CHR ''}'' \<notin> set post"
  shows "brace_span (pre @ [CHR ''{''] @ mid @ [CHR ''}''] @ post) = Some ([CHR ''{''] @ mid @ [CHR ''}''])"
proof -
  have a: "dropWhile (\<lambda>c. c \<noteq> CHR ''{'') (pre @ [CHR ''{''] @ mid @ [CHR ''}''] @ post)
      = [CHR ''{''] @ mid @ [CHR ''}''] @ post"
    using assms(1) by (simp add: dropWhile_append)
  have b: "dropWhile (\<lambda>c. c \<noteq> CHR ''}'') (rev ([CHR ''{''] @ mid @ [CHR ''}''] @ post))
      = rev ([CHR ''{''] @ mid @ [CHR ''}''])"
    using assms(2) by (simp add: dropWhile_append)
  show ?thesis unfolding brace_span_def Let_def a b by simp
qed

lemma brace_span_none:
  assumes "CHR ''{'' \<notin> set resp \<or>
     (\<exists>pre post. resp = pre @ [CHR ''{''] @ post \<and> CHR ''{'' \<notin> set pre \<and> CHR ''}'' \<notin> set post)"
  shows "brace_span resp = None"
  using assms
proof
  assume "CHR ''{'' \<notin> set resp"
  then have x: "dropWhile (\<lambda>c. c \<noteq> CHR ''{'') resp = []"
    unfolding dropWhile_eq_Nil_conv by blast
  show ?thesis unfolding brace_span_def Let_def x by simp
next
  assume "\<exists>pre post. resp = pre @ [CHR ''{''] @ post \<and> CHR ''{'' \<notin> set pre \<and> CHR ''}'' \<notin> set post"
  then obtain pre post where r: "resp = pre @ [CHR ''{''] @ post"
    and a: "CHR ''{'' \<notin> set pre" and b: "CHR ''}'' \<notin> set post" by blast
  have x: "dropWhile (\<lambda>c. c \<noteq> CHR ''{'') resp = [CHR ''{''] @ post"
    unfolding r using a by (simp add: dropWhile_append)
  have y: "dropWhile (\<lambda>c. c \<noteq> CHR ''}'') (rev ([CHR ''{''] @ post)) = []"
    unfolding dropWhile_eq_Nil_conv using b by auto
  show ?thesis unfolding brace_span_def Let_def x y by simp
qed

lemma assign_sets_goal:
  assumes "alive a" and "g \<noteq> IDLE"
    and "\<not> (case zone a of Some z \<Rightarrow> name z = name tz | None \<Rightarrow> False)"
  shows "goal (fst (assign a g (Some tz))) = g \<and> target (fst (assign a g (Some tz))) = Some tz"
  using assms by (auto simp: assign_def Let_def split: option.splits sum.splits)

lemma assign_in_zone:
  assumes "zone a = Some z" and "name z = name tz" and "g \<noteq> IDLE"
  shows "assign a g (Some tz) = (a, None)"
  using assms by (simp add: assign_def)

lemma find_returns:
  assumes "distinct (map name zs)" and "za \<in> set zs" and "zb \<in> set zs"
  shows "\<exists>p. find (PathGraph_init hyp zs) (name za) (name zb) = Inr p"
proof -
  let ?G = "PathGraph_init hyp zs"
  let ?a = "name za" and ?b = "name zb"
  have ka: "?a \<in> fst ` set (pos ?G)" and kb: "?b \<in> fst ` set (pos ?G)"
    using assms(2,3) by (simp_all add: graph_keys)
  note pa = pos_at_key [OF ka] and pb = pos_at_key [OF kb]
  show ?thesis
  proof (cases "?a = ?b")
    case True
    then show ?thesis by (simp add: find_def pb)
  next
    case ne: False
    note r = bfs_correct [OF bfs_inv_init [OF ne], of ?G]
    show ?thesis
    proof (cases "bfs ?G ?b [[?a]] {?a}")
      case (Inl x)
      with r show ?thesis by simp
    next
      case (Inr res)
      show ?thesis
      proof (cases res)
        case None
        then show ?thesis using ne Inr by (simp add: find_def pa pb)
      next
        case (Some p)
        with r Inr have p: "walk ?G p" "hd p = ?a" by simp_all
        have "set p \<subseteq> insert ?a (nodes ?G)" using walk_nodes [OF p(1)] p(2) by simp
        also have "\<dots> \<subseteq> fst ` set (pos ?G)"
          using graph_nodes [of hyp zs] assms(2) by (auto simp: graph_keys)
        finally have "centers ?G p = Inr (map (pos_of (pos ?G)) p)" by (rule centers_keys)
        then show ?thesis using ne Inr Some by (simp add: find_def)
      qed
    qed
  qed
qed

lemma assign_returns:
  assumes "graph a = PathGraph_init hyp zs" and "distinct (map name zs)"
    and "zone a = Some z" and "z \<in> set zs" and "tz \<in> set zs"
  shows "snd (assign a g (Some tz)) = None"
proof -
  obtain p where "find (PathGraph_init hyp zs) (name z) (name tz) = Inr p"
    using find_returns [OF assms(2,4,5)] by blast
  then show ?thesis using assms(1,3) by (simp add: assign_def Let_def)
qed

lemma apply_entry_unknown:
  "map_of (agents w) aid = None \<Longrightarrow> apply_entry lib w (aid, act) = (w, None)"
  by (simp add: apply_entry_def)

lemma apply_entry_dead:
  "map_of (agents w) aid = Some a \<Longrightarrow> \<not> alive a \<Longrightarrow> apply_entry lib w (aid, act) = (w, None)"
  by (simp add: apply_entry_def)

lemma apply_entry_ignored:
  "map_of (agents w) aid = Some a \<Longrightarrow>
   map_of goal_map (raw_goal lib kv) = None \<or> map_of goal_map (raw_goal lib kv) = Some IDLE \<Longrightarrow>
   apply_entry lib w (aid, EDict kv) = (w, None)"
  by (auto simp: apply_entry_def)

lemma apply_entry_home:
  "map_of (agents w) aid = Some a \<Longrightarrow> alive a \<Longrightarrow> map_of goal_map (raw_goal lib kv) = Some GO_HOME \<Longrightarrow>
   apply_entry lib w (aid, EDict kv) =
     (w\<lparr>agents := AList.update aid (fst (assign a GO_HOME (Some (home a)))) (agents w)\<rparr>,
      snd (assign a GO_HOME (Some (home a))))"
  by (simp add: apply_entry_def Let_def)

lemma apply_entry_zone:
  "map_of (agents w) aid = Some a \<Longrightarrow> alive a \<Longrightarrow> map_of goal_map (raw_goal lib kv) = Some g \<Longrightarrow>
   g \<noteq> IDLE \<Longrightarrow> g \<noteq> GO_HOME \<Longrightarrow> ZONE_FOR_GOAL g = Some zt \<Longrightarrow>
   apply_entry lib w (aid, EDict kv) =
     (case List.find (\<lambda>z. type z = zt) (world_zones w) of
        None \<Rightarrow> (w, None)
      | Some t \<Rightarrow> (w\<lparr>agents := AList.update aid (fst (assign a g (Some t))) (agents w)\<rparr>,
                   snd (assign a g (Some t))))"
  by (simp add: apply_entry_def Let_def zone_by_type_def split: option.splits)

lemma raw_goal_trimmed:
  assumes "text_ok lib" and "py_str (dict_get kv ''goal'' (VStr [])) = ws1 @ core @ ws2"
    and "ascii (ws1 @ core @ ws2)"
    and "\<forall>c \<in> set ws1 \<union> set ws2. is_space c"
    and "core = [] \<or> (\<not> is_space (hd core) \<and> \<not> is_space (last core))"
  shows "raw_goal lib kv = map lower_char core"
proof -
  have a: "ascii (py_str (dict_get kv ''goal'' (VStr [])))" using assms(2,3) by simp
  have s: "ascii_strip (ws1 @ core @ ws2) = core"
    using assms(4,5) by (intro strip_spaces) auto
  show ?thesis unfolding raw_goal_ascii [OF assms(1) a] assms(2) s ascii_lower_def ..
qed

lemma raw_goal_go_cafe:
  assumes "text_ok lib"
  shows "map_of goal_map (raw_goal lib [(''goal'', VStr ''go_cafe'')]) = Some GO_CAFE"
proof -
  have "raw_goal lib [(''goal'', VStr ''go_cafe'')] = map lower_char ''go_cafe''"
    by (rule raw_goal_trimmed [OF assms, of _ "[]" _ "[]"])
      (simp_all add: dict_get_def ascii_def is_space_def)
  then show ?thesis by (simp add: lower_char_def dict_get_def goal_map_def)
qed

lemma raw_goal_Go_Cafe:
  assumes "text_ok lib"
  shows "map_of goal_map (raw_goal lib [(''goal'', VStr '' Go_Cafe '')]) = Some GO_CAFE"
proof -
  have "raw_goal lib [(''goal'', VStr '' Go_Cafe '')] = map lower_char ''Go_Cafe''"
    by (rule raw_goal_trimmed [OF assms, of _ "'' ''" _ "'' ''"])
      (simp_all add: dict_get_def ascii_def is_space_def)
  then show ?thesis by (simp add: lower_char_def dict_get_def goal_map_def)
qed

lemma raw_goal_go_park:
  assumes "text_ok lib"
  shows "map_of goal_map (raw_goal lib [(''goal'', VStr ''go_park'')]) = Some GO_PARK"
proof -
  have "raw_goal lib [(''goal'', VStr ''go_park'')] = map lower_char ''go_park''"
    by (rule raw_goal_trimmed [OF assms, of _ "[]" _ "[]"])
      (simp_all add: dict_get_def ascii_def is_space_def)
  then show ?thesis by (simp add: lower_char_def dict_get_def goal_map_def)
qed

lemma example_span:
  "brace_span ''blah {\"A\":{\"goal\":\"go_cafe\"}} blah'' = Some ''{\"A\":{\"goal\":\"go_cafe\"}}''"
  by (simp add: brace_span_def)

lemma example_entry:
  assumes "text_ok lib" and "map_of (agents w) ''A'' = Some a" and "alive a"
    and "zone_by_type w CAFE = Some cafe"
  shows "apply_entry lib w (''A'', EDict [(''goal'', VStr ''go_cafe'')]) =
      (w\<lparr>agents := AList.update ''A'' (fst (assign a GO_CAFE (Some cafe))) (agents w)\<rparr>,
       snd (assign a GO_CAFE (Some cafe)))"
  using apply_entry_zone [OF assms(2,3) raw_goal_go_cafe [OF assms(1)], of CAFE] assms(4)
  by (simp add: zone_by_type_def)

lemma example_round:
  assumes "text_ok lib"
    and "json_loads lib ''{\"A\":{\"goal\":\"go_cafe\"}}'' = Some [(''A'', EDict [(''goal'', VStr ''go_cafe'')])]"
    and "map_of (agents w) ''A'' = Some a" and "alive a"
    and "zone_by_type w CAFE = Some cafe"
  shows "fst (parse lib w ''blah {\"A\":{\"goal\":\"go_cafe\"}} blah'') =
     w\<lparr>agents := AList.update ''A'' (fst (assign a GO_CAFE (Some cafe))) (agents w)\<rparr>"
  by (simp add: parse_def example_span assms(2) example_entry [OF assms(1,3,4,5)] split: option.splits)

lemma sample_loads_object:
  "json_loads sample_lib ''{\"A\":{\"goal\":\"go_cafe\"}}'' = Some [(''A'', EDict [(''goal'', VStr ''go_cafe'')])]"
  by (simp add: sample_lib_def sample_loads_def)

lemma sample_loads_two:
  "json_loads sample_lib ''{\"A\":{\"goal\":\" Go_Cafe \"},\"B\":{\"goal\":\"go_park\"}}'' =
     Some [(''A'', EDict [(''goal'', VStr '' Go_Cafe '')]), (''B'', EDict [(''goal'', VStr ''go_park'')])]"
  by (simp add: sample_lib_def sample_loads_def)

lemma sample_span_two:
  "brace_span ''note {\"A\":{\"goal\":\" Go_Cafe \"},\"B\":{\"goal\":\"go_park\"}} end'' =
     Some ''{\"A\":{\"goal\":\" Go_Cafe \"},\"B\":{\"goal\":\"go_park\"}}''"
  by (simp add: brace_span_def)

lemma sample_world_zones: "world_zones sample_world = make_zones"
  by (simp add: sample_world_def World_init_def Let_def)

lemma sample_world_cafe: "zone_by_type sample_world CAFE = Some cafe_zone"
  by (simp add: zone_by_type_def sample_world_zones make_zones_def cafe_zone_def)

lemma sample_world_park: "zone_by_type sample_world PARK = Some park_zone"
  by (simp add: zone_by_type_def sample_world_zones make_zones_def park_zone_def)

lemma sample_world_B: "map_of (agents sample_world) ''B'' = Some bob"
  by (simp add: sample_world_def World_init_def make_agents_def bob_def Let_def make_zones_def)

lemma bob_fields:
  "alive bob" "zone bob = Some (make_zones ! 1)" "graph bob = PathGraph_init exact_hypot make_zones"
  by (simp_all add: bob_def Agent_init_def)

lemma alice_graph: "graph alice = PathGraph_init exact_hypot make_zones"
  by (simp add: alice_def Agent_init_def)

lemma sample_zones_members:
  "make_zones ! 0 \<in> set make_zones" "make_zones ! 1 \<in> set make_zones"
  "cafe_zone \<in> set make_zones" "park_zone \<in> set make_zones"
  by (simp_all add: make_zones_def cafe_zone_def park_zone_def)

lemma alice_not_in_cafe: "\<not> (case zone alice of Some z \<Rightarrow> name z = name cafe_zone | None \<Rightarrow> False)"
  by (simp add: alice_fields make_zones_def cafe_zone_def)

lemma bob_not_in_park: "\<not> (case zone bob of Some z \<Rightarrow> name z = name park_zone | None \<Rightarrow> False)"
  by (simp add: bob_fields make_zones_def park_zone_def)

lemma cafe_world_A: "map_of (agents cafe_world) ''A'' = Some alice_in_cafe"
  by (simp add: cafe_world_def update_conv')

lemma cafe_world_cafe: "zone_by_type cafe_world CAFE = Some cafe_zone"
  using sample_world_cafe by (simp add: zone_by_type_def cafe_world_def)

lemma alice_in_cafe_fields:
  "alive alice_in_cafe" "goal alice_in_cafe = IDLE" "zone alice_in_cafe = Some cafe_zone"
  by (simp_all add: alice_in_cafe_def alice_fields)

lemma sample_entry_A:
  "apply_entry sample_lib sample_world (''A'', EDict [(''goal'', VStr '' Go_Cafe '')]) =
     (sample_world\<lparr>agents := AList.update ''A'' (fst (assign alice GO_CAFE (Some cafe_zone)))
        (agents sample_world)\<rparr>, None)"
proof -
  have n: "snd (assign alice GO_CAFE (Some cafe_zone)) = None"
    by (rule assign_returns [OF alice_graph make_zones_names(1) alice_fields(5)
          sample_zones_members(1) sample_zones_members(3)])
  show ?thesis
    using apply_entry_zone [OF sample_world_A alice_fields(1) raw_goal_Go_Cafe [OF text_ok_sample],
        of CAFE] sample_world_cafe n
    by (simp add: zone_by_type_def)
qed

lemma sample_entry_B:
  "apply_entry sample_lib sample_world (''B'', EDict [(''goal'', VStr ''go_park'')]) =
     (sample_world\<lparr>agents := AList.update ''B'' (fst (assign bob GO_PARK (Some park_zone)))
        (agents sample_world)\<rparr>, None)"
proof -
  have n: "snd (assign bob GO_PARK (Some park_zone)) = None"
    by (rule assign_returns [OF bob_fields(3) make_zones_names(1) bob_fields(2)
          sample_zones_members(2) sample_zones_members(4)])
  show ?thesis
    using apply_entry_zone [OF sample_world_B bob_fields(1) raw_goal_go_park [OF text_ok_sample],
        of PARK] sample_world_park n
    by (simp add: zone_by_type_def)
qed

subsection \<open>C5: parsing a response\<close>

text \<open>
  Claim C5, amended. \<^verbatim>\<open>_parse\<close> takes the text from the first opening brace to the
  last closing brace of the response (commentary before it that holds no opening brace
  and after it that holds no closing brace is dropped; there is no such text when the
  response has no opening brace, or no closing brace after the first opening one), and
  changes nothing when there is no such text or the decoder rejects it. Otherwise the
  entries of the decoded object are applied one after the other, each to the world the
  entries before it have left,
  and the loop stops at the first entry that raises. The zones and the agent ids of the
  world stay as they were, and so does every agent that no entry names. The keys of an
  object are distinct; then the loop raises exactly when one of the entries would raise
  on its own, and when none does, the agent named by an entry ends as that entry alone
  would have left it. One entry: an unknown agent id, a dead agent, and a goal string
  that the normalisation maps to no known goal or to \<^verbatim>\<open>idle\<close> change nothing;
  \<^verbatim>\<open>go_home\<close> calls \<^verbatim>\<open>assign\<close> with the agent's own home; any other goal calls
  \<^verbatim>\<open>assign\<close> with the first zone of the goal's type and changes nothing when there
  is none. The normalisation is \<^verbatim>\<open>str\<close>, then \<^verbatim>\<open>strip\<close>, then \<^verbatim>\<open>lower\<close> as the
  library defines them; on ASCII text it removes the whitespace (character codes 9 to
  13 and 28 to 32) around the core of the string and maps the letters A to Z of the
  core to a to z, so that \<^verbatim>\<open>" Go_Cafe "\<close> is the goal \<^verbatim>\<open>GO_CAFE\<close>. For the
  response \<^verbatim>\<open>blah {"A":{"goal":"go_cafe"}} blah\<close> and a living agent A in a world
  with a cafe: if A is not already in the cafe zone, A has goal \<^verbatim>\<open>GO_CAFE\<close> and the
  cafe as target afterwards; if A is already there, \<^verbatim>\<open>assign\<close> returns at its guard
  and nothing changes; in both cases every other agent is as before.
\<close>

theorem parse_applies_entries:
  "(CHR ''{'' \<notin> set pre \<and> CHR ''}'' \<notin> set post \<longrightarrow>
      brace_span (pre @ [CHR ''{''] @ mid @ [CHR ''}''] @ post)
        = Some ([CHR ''{''] @ mid @ [CHR ''}''])) \<and>
   (CHR ''{'' \<notin> set resp \<or>
      (\<exists>pre post. resp = pre @ [CHR ''{''] @ post \<and> CHR ''{'' \<notin> set pre \<and> CHR ''}'' \<notin> set post) \<longrightarrow>
      brace_span resp = None) \<and>
   (brace_span resp = None \<or> (\<exists>m. brace_span resp = Some m \<and> json_loads lib m = None) \<longrightarrow>
      parse lib w resp = (w, None)) \<and>
   (brace_span resp = Some m \<and> json_loads lib m = Some data \<longrightarrow>
      parse lib w resp = apply_entries lib w data \<and>
      world_zones (fst (parse lib w resp)) = world_zones w \<and>
      map fst (agents (fst (parse lib w resp))) = map fst (agents w) \<and>
      (\<forall>k. k \<notin> fst ` set data \<longrightarrow>
         map_of (agents (fst (parse lib w resp))) k = map_of (agents w) k) \<and>
      (distinct (map fst data) \<longrightarrow>
         (snd (parse lib w resp) = None \<longleftrightarrow>
            (\<forall>x \<in> set data. snd (apply_entry lib w x) = None)) \<and>
         (snd (parse lib w resp) = None \<longrightarrow>
            (\<forall>x \<in> set data. map_of (agents (fst (parse lib w resp))) (fst x)
                = map_of (agents (fst (apply_entry lib w x))) (fst x))))) \<and>
   apply_entries lib w [] = (w, None) \<and>
   apply_entries lib w [e] = apply_entry lib w e \<and>
   apply_entries lib w (es1 @ es2) =
     (if snd (apply_entries lib w es1) = None
      then apply_entries lib (fst (apply_entries lib w es1)) es2
      else apply_entries lib w es1) \<and>
   (map_of (agents w) aid = None \<longrightarrow> apply_entry lib w (aid, act) = (w, None)) \<and>
   (map_of (agents w) aid = Some a \<and> \<not> alive a \<longrightarrow> apply_entry lib w (aid, act) = (w, None)) \<and>
   (map_of (agents w) aid = Some a \<and>
      (map_of goal_map (raw_goal lib kv) = None \<or> map_of goal_map (raw_goal lib kv) = Some IDLE) \<longrightarrow>
      apply_entry lib w (aid, EDict kv) = (w, None)) \<and>
   (map_of (agents w) aid = Some a \<and> alive a \<and> map_of goal_map (raw_goal lib kv) = Some GO_HOME \<longrightarrow>
      apply_entry lib w (aid, EDict kv) =
        (w\<lparr>agents := AList.update aid (fst (assign a GO_HOME (Some (home a)))) (agents w)\<rparr>,
         snd (assign a GO_HOME (Some (home a))))) \<and>
   (map_of (agents w) aid = Some a \<and> alive a \<and> map_of goal_map (raw_goal lib kv) = Some g \<and>
      g \<noteq> IDLE \<and> g \<noteq> GO_HOME \<and> ZONE_FOR_GOAL g = Some zt \<longrightarrow>
      (List.find (\<lambda>z. type z = zt) (world_zones w) = None \<longrightarrow>
         apply_entry lib w (aid, EDict kv) = (w, None)) \<and>
      (\<forall>t. List.find (\<lambda>z. type z = zt) (world_zones w) = Some t \<longrightarrow>
         apply_entry lib w (aid, EDict kv) =
           (w\<lparr>agents := AList.update aid (fst (assign a g (Some t))) (agents w)\<rparr>,
            snd (assign a g (Some t))))) \<and>
   (text_ok lib \<and> py_str (dict_get kv ''goal'' (VStr [])) = ws1 @ core @ ws2 \<and>
      ascii (ws1 @ core @ ws2) \<and> (\<forall>c \<in> set ws1 \<union> set ws2. is_space c) \<and>
      (core = [] \<or> \<not> is_space (hd core) \<and> \<not> is_space (last core)) \<longrightarrow>
      raw_goal lib kv = map lower_char core) \<and>
   (is_space c \<longleftrightarrow> (of_char c :: nat) \<in> {9, 10, 11, 12, 13, 28, 29, 30, 31, 32}) \<and>
   map lower_char ''ABCDEFGHIJKLMNOPQRSTUVWXYZ'' = ''abcdefghijklmnopqrstuvwxyz'' \<and>
   (c \<notin> set ''ABCDEFGHIJKLMNOPQRSTUVWXYZ'' \<longrightarrow> lower_char c = c) \<and>
   (text_ok lib \<longrightarrow>
      map_of goal_map (raw_goal lib [(''goal'', VStr '' Go_Cafe '')]) = Some GO_CAFE) \<and>
   (text_ok lib \<and>
      json_loads lib ''{\"A\":{\"goal\":\"go_cafe\"}}'' = Some [(''A'', EDict [(''goal'', VStr ''go_cafe'')])] \<and>
      map_of (agents w) ''A'' = Some a \<and> alive a \<and> zone_by_type w CAFE = Some cafe \<longrightarrow>
      (\<not> (case zone a of Some z \<Rightarrow> name z = name cafe | None \<Rightarrow> False) \<longrightarrow>
         (\<exists>a'. map_of (agents (fst (parse lib w ''blah {\"A\":{\"goal\":\"go_cafe\"}} blah''))) ''A''
                 = Some a' \<and> goal a' = GO_CAFE \<and> target a' = Some cafe)) \<and>
      ((case zone a of Some z \<Rightarrow> name z = name cafe | None \<Rightarrow> False) \<longrightarrow>
         parse lib w ''blah {\"A\":{\"goal\":\"go_cafe\"}} blah'' = (w, None)) \<and>
      (\<forall>k. k \<noteq> ''A'' \<longrightarrow>
         map_of (agents (fst (parse lib w ''blah {\"A\":{\"goal\":\"go_cafe\"}} blah''))) k
           = map_of (agents w) k) \<and>
      map fst (agents (fst (parse lib w ''blah {\"A\":{\"goal\":\"go_cafe\"}} blah'')))
        = map fst (agents w))"
proof -
  have p0: "CHR ''{'' \<notin> set pre \<and> CHR ''}'' \<notin> set post \<longrightarrow>
      brace_span (pre @ [CHR ''{''] @ mid @ [CHR ''}''] @ post)
        = Some ([CHR ''{''] @ mid @ [CHR ''}''])"
    using brace_span_found [of pre post mid] by blast
  have p0': "CHR ''{'' \<notin> set resp \<or>
      (\<exists>pre post. resp = pre @ [CHR ''{''] @ post \<and> CHR ''{'' \<notin> set pre \<and> CHR ''}'' \<notin> set post) \<longrightarrow>
      brace_span resp = None"
    using brace_span_none [of resp] by (rule impI)
  have p1: "brace_span resp = None \<or> (\<exists>m. brace_span resp = Some m \<and> json_loads lib m = None) \<longrightarrow>
      parse lib w resp = (w, None)"
    by (auto simp: parse_def)
  have p2: "brace_span resp = Some m \<and> json_loads lib m = Some data \<longrightarrow>
      parse lib w resp = apply_entries lib w data \<and>
      world_zones (fst (parse lib w resp)) = world_zones w \<and>
      map fst (agents (fst (parse lib w resp))) = map fst (agents w) \<and>
      (\<forall>k. k \<notin> fst ` set data \<longrightarrow>
         map_of (agents (fst (parse lib w resp))) k = map_of (agents w) k) \<and>
      (distinct (map fst data) \<longrightarrow>
         (snd (parse lib w resp) = None \<longleftrightarrow>
            (\<forall>x \<in> set data. snd (apply_entry lib w x) = None)) \<and>
         (snd (parse lib w resp) = None \<longrightarrow>
            (\<forall>x \<in> set data. map_of (agents (fst (parse lib w resp))) (fst x)
                = map_of (agents (fst (apply_entry lib w x))) (fst x))))"
  proof (rule impI)
    assume h: "brace_span resp = Some m \<and> json_loads lib m = Some data"
    then have r: "parse lib w resp = apply_entries lib w data" by (simp add: parse_def)
    note f = apply_entries_frame [of lib w data]
    have d: "(snd (apply_entries lib w data) = None \<longleftrightarrow>
            (\<forall>x \<in> set data. snd (apply_entry lib w x) = None)) \<and>
         (snd (apply_entries lib w data) = None \<longrightarrow>
            (\<forall>x \<in> set data. map_of (agents (fst (apply_entries lib w data))) (fst x)
                = map_of (agents (fst (apply_entry lib w x))) (fst x)))"
      if "distinct (map fst data)"
      using apply_entries_raises [OF that, of lib w] apply_entries_each [OF that, of lib w]
      by blast
    show "parse lib w resp = apply_entries lib w data \<and>
      world_zones (fst (parse lib w resp)) = world_zones w \<and>
      map fst (agents (fst (parse lib w resp))) = map fst (agents w) \<and>
      (\<forall>k. k \<notin> fst ` set data \<longrightarrow>
         map_of (agents (fst (parse lib w resp))) k = map_of (agents w) k) \<and>
      (distinct (map fst data) \<longrightarrow>
         (snd (parse lib w resp) = None \<longleftrightarrow>
            (\<forall>x \<in> set data. snd (apply_entry lib w x) = None)) \<and>
         (snd (parse lib w resp) = None \<longrightarrow>
            (\<forall>x \<in> set data. map_of (agents (fst (parse lib w resp))) (fst x)
                = map_of (agents (fst (apply_entry lib w x))) (fst x))))"
      unfolding r using f d by blast
  qed
  have l0: "apply_entries lib w [] = (w, None)" by simp
  have l1: "apply_entries lib w [e] = apply_entry lib w e"
    by (cases "apply_entry lib w e") (auto split: option.splits)
  note l2 = apply_entries_append [of lib w es1 es2]
  have p3: "map_of (agents w) aid = None \<longrightarrow> apply_entry lib w (aid, act) = (w, None)"
    using apply_entry_unknown [of w aid lib act] by blast
  have p4: "map_of (agents w) aid = Some a \<and> \<not> alive a \<longrightarrow> apply_entry lib w (aid, act) = (w, None)"
    using apply_entry_dead [of w aid a lib act] by blast
  have p5: "map_of (agents w) aid = Some a \<and>
      (map_of goal_map (raw_goal lib kv) = None \<or> map_of goal_map (raw_goal lib kv) = Some IDLE) \<longrightarrow>
      apply_entry lib w (aid, EDict kv) = (w, None)"
    using apply_entry_ignored [of w aid a lib kv] by blast
  have p6: "map_of (agents w) aid = Some a \<and> alive a \<and> map_of goal_map (raw_goal lib kv) = Some GO_HOME \<longrightarrow>
      apply_entry lib w (aid, EDict kv) =
        (w\<lparr>agents := AList.update aid (fst (assign a GO_HOME (Some (home a)))) (agents w)\<rparr>,
         snd (assign a GO_HOME (Some (home a))))"
    using apply_entry_home [of w aid a lib kv] by blast
  have p7: "map_of (agents w) aid = Some a \<and> alive a \<and> map_of goal_map (raw_goal lib kv) = Some g \<and>
      g \<noteq> IDLE \<and> g \<noteq> GO_HOME \<and> ZONE_FOR_GOAL g = Some zt \<longrightarrow>
      (List.find (\<lambda>z. type z = zt) (world_zones w) = None \<longrightarrow>
         apply_entry lib w (aid, EDict kv) = (w, None)) \<and>
      (\<forall>t. List.find (\<lambda>z. type z = zt) (world_zones w) = Some t \<longrightarrow>
         apply_entry lib w (aid, EDict kv) =
           (w\<lparr>agents := AList.update aid (fst (assign a g (Some t))) (agents w)\<rparr>,
            snd (assign a g (Some t))))"
    using apply_entry_zone [of w aid a lib kv g zt] by auto
  have n0: "text_ok lib \<and> py_str (dict_get kv ''goal'' (VStr [])) = ws1 @ core @ ws2 \<and>
      ascii (ws1 @ core @ ws2) \<and> (\<forall>c \<in> set ws1 \<union> set ws2. is_space c) \<and>
      (core = [] \<or> \<not> is_space (hd core) \<and> \<not> is_space (last core)) \<longrightarrow>
      raw_goal lib kv = map lower_char core"
    using raw_goal_trimmed [of lib kv ws1 core ws2] by blast
  note n1 = is_space_code [of c]
  note n2 = lower_char_letters
  have n3: "c \<notin> set ''ABCDEFGHIJKLMNOPQRSTUVWXYZ'' \<longrightarrow> lower_char c = c"
    using lower_char_other [of c] by (rule impI)
  have n4: "text_ok lib \<longrightarrow>
      map_of goal_map (raw_goal lib [(''goal'', VStr '' Go_Cafe '')]) = Some GO_CAFE"
    using raw_goal_Go_Cafe [of lib] by (rule impI)
  have p9: "(\<not> (case zone a of Some z \<Rightarrow> name z = name cafe | None \<Rightarrow> False) \<longrightarrow>
         (\<exists>a'. map_of (agents (fst (parse lib w ''blah {\"A\":{\"goal\":\"go_cafe\"}} blah''))) ''A''
                 = Some a' \<and> goal a' = GO_CAFE \<and> target a' = Some cafe)) \<and>
      ((case zone a of Some z \<Rightarrow> name z = name cafe | None \<Rightarrow> False) \<longrightarrow>
         parse lib w ''blah {\"A\":{\"goal\":\"go_cafe\"}} blah'' = (w, None)) \<and>
      (\<forall>k. k \<noteq> ''A'' \<longrightarrow>
         map_of (agents (fst (parse lib w ''blah {\"A\":{\"goal\":\"go_cafe\"}} blah''))) k
           = map_of (agents w) k) \<and>
      map fst (agents (fst (parse lib w ''blah {\"A\":{\"goal\":\"go_cafe\"}} blah'')))
        = map fst (agents w)"
    if h: "text_ok lib"
      "json_loads lib ''{\"A\":{\"goal\":\"go_cafe\"}}'' = Some [(''A'', EDict [(''goal'', VStr ''go_cafe'')])]"
      "map_of (agents w) ''A'' = Some a" "alive a" "zone_by_type w CAFE = Some cafe"
  proof -
    let ?t = "''blah {\"A\":{\"goal\":\"go_cafe\"}} blah''"
    let ?a = "fst (assign a GO_CAFE (Some cafe))"
    note e = example_entry [OF h(1,3,4,5)]
    have r: "fst (parse lib w ?t) = w\<lparr>agents := AList.update ''A'' ?a (agents w)\<rparr>"
      using h by (rule example_round [of lib w a cafe])
    have c1: "\<exists>a'. map_of (agents (fst (parse lib w ?t))) ''A'' = Some a' \<and> goal a' = GO_CAFE \<and>
        target a' = Some cafe"
      if "\<not> (case zone a of Some z \<Rightarrow> name z = name cafe | None \<Rightarrow> False)"
      using assign_sets_goal [OF h(4) _ that, of GO_CAFE] by (simp add: r update_conv')
    have c2: "parse lib w ?t = (w, None)"
      if "case zone a of Some z \<Rightarrow> name z = name cafe | None \<Rightarrow> False"
    proof -
      from that obtain z where "zone a = Some z" "name z = name cafe"
        by (cases "zone a") auto
      then have "assign a GO_CAFE (Some cafe) = (a, None)" by (simp add: assign_in_zone)
      then have "apply_entry lib w (''A'', EDict [(''goal'', VStr ''go_cafe'')]) = (w, None)"
        using e h(3) by (simp add: update_triv)
      then show ?thesis by (simp add: parse_def example_span h(2))
    qed
    have c3: "\<forall>k. k \<noteq> ''A'' \<longrightarrow> map_of (agents (fst (parse lib w ?t))) k = map_of (agents w) k"
      by (simp add: r update_conv')
    have c4: "map fst (agents (fst (parse lib w ?t))) = map fst (agents w)"
      using key_present [OF h(3)] by (simp add: r update_keys)
    from c1 c2 c3 c4 show ?thesis by blast
  qed
  have p9': "text_ok lib \<and>
      json_loads lib ''{\"A\":{\"goal\":\"go_cafe\"}}'' = Some [(''A'', EDict [(''goal'', VStr ''go_cafe'')])] \<and>
      map_of (agents w) ''A'' = Some a \<and> alive a \<and> zone_by_type w CAFE = Some cafe \<longrightarrow>
      (\<not> (case zone a of Some z \<Rightarrow> name z = name cafe | None \<Rightarrow> False) \<longrightarrow>
         (\<exists>a'. map_of (agents (fst (parse lib w ''blah {\"A\":{\"goal\":\"go_cafe\"}} blah''))) ''A''
                 = Some a' \<and> goal a' = GO_CAFE \<and> target a' = Some cafe)) \<and>
      ((case zone a of Some z \<Rightarrow> name z = name cafe | None \<Rightarrow> False) \<longrightarrow>
         parse lib w ''blah {\"A\":{\"goal\":\"go_cafe\"}} blah'' = (w, None)) \<and>
      (\<forall>k. k \<noteq> ''A'' \<longrightarrow>
         map_of (agents (fst (parse lib w ''blah {\"A\":{\"goal\":\"go_cafe\"}} blah''))) k
           = map_of (agents w) k) \<and>
      map fst (agents (fst (parse lib w ''blah {\"A\":{\"goal\":\"go_cafe\"}} blah'')))
        = map fst (agents w)"
  proof (rule impI)
    assume "text_ok lib \<and>
      json_loads lib ''{\"A\":{\"goal\":\"go_cafe\"}}'' = Some [(''A'', EDict [(''goal'', VStr ''go_cafe'')])] \<and>
      map_of (agents w) ''A'' = Some a \<and> alive a \<and> zone_by_type w CAFE = Some cafe"
    then show "(\<not> (case zone a of Some z \<Rightarrow> name z = name cafe | None \<Rightarrow> False) \<longrightarrow>
         (\<exists>a'. map_of (agents (fst (parse lib w ''blah {\"A\":{\"goal\":\"go_cafe\"}} blah''))) ''A''
                 = Some a' \<and> goal a' = GO_CAFE \<and> target a' = Some cafe)) \<and>
      ((case zone a of Some z \<Rightarrow> name z = name cafe | None \<Rightarrow> False) \<longrightarrow>
         parse lib w ''blah {\"A\":{\"goal\":\"go_cafe\"}} blah'' = (w, None)) \<and>
      (\<forall>k. k \<noteq> ''A'' \<longrightarrow>
         map_of (agents (fst (parse lib w ''blah {\"A\":{\"goal\":\"go_cafe\"}} blah''))) k
           = map_of (agents w) k) \<and>
      map fst (agents (fst (parse lib w ''blah {\"A\":{\"goal\":\"go_cafe\"}} blah'')))
        = map fst (agents w)"
      by (intro p9) (erule conjE conjunct1)+
  qed
  show ?thesis
    by (rule conjI p0 p0' p1 p2 l0 l1 l2 p3 p4 p5 p6 p7 n0 n1 n2 n3 n4 p9')+
qed

theorem parse_applies_entries_witness:
  "text_ok sample_lib \<and>
   brace_span ''note {\"A\":{\"goal\":\" Go_Cafe \"},\"B\":{\"goal\":\"go_park\"}} end''
     = Some ''{\"A\":{\"goal\":\" Go_Cafe \"},\"B\":{\"goal\":\"go_park\"}}'' \<and>
   json_loads sample_lib ''{\"A\":{\"goal\":\" Go_Cafe \"},\"B\":{\"goal\":\"go_park\"}}''
     = Some [(''A'', EDict [(''goal'', VStr '' Go_Cafe '')]), (''B'', EDict [(''goal'', VStr ''go_park'')])] \<and>
   map_of (agents sample_world) ''A'' = Some alice \<and> alive alice \<and>
   map_of (agents sample_world) ''B'' = Some bob \<and> alive bob \<and>
   zone_by_type sample_world CAFE = Some cafe_zone \<and>
   zone_by_type sample_world PARK = Some park_zone \<and>
   snd (parse sample_lib sample_world
          ''note {\"A\":{\"goal\":\" Go_Cafe \"},\"B\":{\"goal\":\"go_park\"}} end'') = None \<and>
   (\<exists>a'. map_of (agents (fst (parse sample_lib sample_world
              ''note {\"A\":{\"goal\":\" Go_Cafe \"},\"B\":{\"goal\":\"go_park\"}} end''))) ''A'' = Some a' \<and>
         goal a' = GO_CAFE \<and> target a' = Some cafe_zone) \<and>
   (\<exists>b'. map_of (agents (fst (parse sample_lib sample_world
              ''note {\"A\":{\"goal\":\" Go_Cafe \"},\"B\":{\"goal\":\"go_park\"}} end''))) ''B'' = Some b' \<and>
         goal b' = GO_PARK \<and> target b' = Some park_zone) \<and>
   map_of (agents (fst (parse sample_lib sample_world
              ''note {\"A\":{\"goal\":\" Go_Cafe \"},\"B\":{\"goal\":\"go_park\"}} end''))) ''C''
     = map_of (agents sample_world) ''C''"
proof -
  let ?t = "''note {\"A\":{\"goal\":\" Go_Cafe \"},\"B\":{\"goal\":\"go_park\"}} end''"
  let ?m = "''{\"A\":{\"goal\":\" Go_Cafe \"},\"B\":{\"goal\":\"go_park\"}}''"
  let ?eA = "(''A'', EDict [(''goal'', VStr '' Go_Cafe '')])"
  let ?eB = "(''B'', EDict [(''goal'', VStr ''go_park'')])"
  let ?R = "parse sample_lib sample_world ?t"
  have h: "brace_span ?t = Some ?m \<and> json_loads sample_lib ?m = Some [?eA, ?eB]"
    by (intro conjI sample_span_two sample_loads_two)
  note t = parse_applies_entries [where lib = sample_lib and w = sample_world and resp = "?t"
      and m = "?m" and data = "[?eA, ?eB]", THEN conjunct2, THEN conjunct2, THEN conjunct2, THEN conjunct1,
      THEN mp, OF h]
  have c: "''C'' \<notin> fst ` set [?eA, ?eB]" by simp
  note frame = t [THEN conjunct2, THEN conjunct2, THEN conjunct2, THEN conjunct1, rule_format, OF c]
  have d: "distinct (map fst [?eA, ?eB])" by simp
  note each = t [THEN conjunct2, THEN conjunct2, THEN conjunct2, THEN conjunct2, THEN mp, OF d]
  have alone: "\<forall>x \<in> set [?eA, ?eB]. snd (apply_entry sample_lib sample_world x) = None"
    by (simp add: sample_entry_A sample_entry_B)
  note quiet = each [THEN conjunct1, THEN iffD2, OF alone]
  note agent = each [THEN conjunct2, THEN mp, OF quiet]
  have "map_of (agents (fst ?R)) (fst ?eA)
      = map_of (agents (fst (apply_entry sample_lib sample_world ?eA))) (fst ?eA)"
    by (rule agent [rule_format]) simp
  then have rA: "map_of (agents (fst ?R)) ''A'' = Some (fst (assign alice GO_CAFE (Some cafe_zone)))"
    by (simp add: sample_entry_A update_conv')
  have "map_of (agents (fst ?R)) (fst ?eB)
      = map_of (agents (fst (apply_entry sample_lib sample_world ?eB))) (fst ?eB)"
    by (rule agent [rule_format]) simp
  then have rB: "map_of (agents (fst ?R)) ''B'' = Some (fst (assign bob GO_PARK (Some park_zone)))"
    by (simp add: sample_entry_B update_conv')
  have a: "\<exists>a'. map_of (agents (fst ?R)) ''A'' = Some a' \<and> goal a' = GO_CAFE \<and>
      target a' = Some cafe_zone"
    unfolding rA using assign_sets_goal [OF alice_fields(1) _ alice_not_in_cafe, of GO_CAFE]
    by simp
  have b: "\<exists>b'. map_of (agents (fst ?R)) ''B'' = Some b' \<and> goal b' = GO_PARK \<and>
      target b' = Some park_zone"
    unfolding rB using assign_sets_goal [OF bob_fields(1) _ bob_not_in_park, of GO_PARK]
    by simp
  show ?thesis
    by (intro conjI text_ok_sample sample_span_two sample_loads_two sample_world_A
        alice_fields(1) sample_world_B bob_fields(1) sample_world_cafe sample_world_park
        quiet a b frame)
qed

text \<open>
  Claim C5 as stated fails in two places. Agent A, alive and idle in the cafe, does not
  receive \<^verbatim>\<open>GO_CAFE\<close> from the response of the claim: the world is unchanged. And for
  a response that holds two objects one after the other, the text handed to the decoder
  is the whole response, not its first object, so nothing is applied.
\<close>

theorem agent_in_cafe_keeps_goal:
  "text_ok sample_lib \<and>
   map_of (agents cafe_world) ''A'' = Some alice_in_cafe \<and> alive alice_in_cafe \<and>
   goal alice_in_cafe = IDLE \<and> zone_by_type cafe_world CAFE = Some cafe_zone \<and>
   parse sample_lib cafe_world ''blah {\"A\":{\"goal\":\"go_cafe\"}} blah'' = (cafe_world, None) \<and>
   brace_span ''{\"A\":{\"goal\":\"go_cafe\"}} {\"B\":{\"goal\":\"go_park\"}}''
     = Some ''{\"A\":{\"goal\":\"go_cafe\"}} {\"B\":{\"goal\":\"go_park\"}}'' \<and>
   parse sample_lib sample_world ''{\"A\":{\"goal\":\"go_cafe\"}} {\"B\":{\"goal\":\"go_park\"}}''
     = (sample_world, None)"
proof -
  have a: "assign alice_in_cafe GO_CAFE (Some cafe_zone) = (alice_in_cafe, None)"
    by (rule assign_in_zone [OF alice_in_cafe_fields(3)]) simp_all
  have e: "apply_entry sample_lib cafe_world (''A'', EDict [(''goal'', VStr ''go_cafe'')])
      = (cafe_world, None)"
    using example_entry [OF text_ok_sample cafe_world_A alice_in_cafe_fields(1) cafe_world_cafe]
      cafe_world_A
    by (simp add: a update_triv)
  have p: "parse sample_lib cafe_world ''blah {\"A\":{\"goal\":\"go_cafe\"}} blah'' = (cafe_world, None)"
    by (simp add: parse_def example_span sample_loads_object e)
  have s: "brace_span ''{\"A\":{\"goal\":\"go_cafe\"}} {\"B\":{\"goal\":\"go_park\"}}''
     = Some ''{\"A\":{\"goal\":\"go_cafe\"}} {\"B\":{\"goal\":\"go_park\"}}''"
    by (simp add: brace_span_def)
  have q: "parse sample_lib sample_world ''{\"A\":{\"goal\":\"go_cafe\"}} {\"B\":{\"goal\":\"go_park\"}}''
     = (sample_world, None)"
    unfolding parse_def s by (simp add: sample_lib_def sample_loads_def)
  show ?thesis
    by (intro conjI text_ok_sample cafe_world_A alice_in_cafe_fields(1,2) cafe_world_cafe p s q)
qed

end
